theory Spec2Isabelle
  imports
    Complex_Main
    "HOL-Library.Char_ord"
    "HOL-Library.List_Lexorder"
    "HOL-Library.Product_Lexorder"
begin

section \<open>Data model\<close>

text \<open>
  The sheet comparator of \<^verbatim>\<open>src/main.py\<close> works on two polars data frames. A data
  frame is an ordered list of columns; a column has a name, a dtype and one nullable value
  per row. The type of the non-null values is left open (\<open>'v\<close>), and what polars computes
  on them is a parameter of the model:
  \<^item> \<open>N\<close>, the comparison \<^verbatim>\<open>!=\<close> of two non-null values (for Float64 it finds \<open>0.0\<close> and
    \<open>-0.0\<close> equal);
  \<^item> \<open>R\<close>, the cast of a non-null value to \<^verbatim>\<open>Utf8\<close> (which renders these two zeros as
    \<open>0.0\<close> and \<open>-0.0\<close>);
  \<^item> \<open>H\<close>, the hash of a row.
  A dtype is represented by its printed name (\<^verbatim>\<open>str(t)\<close>).

  Numbers: \<^verbatim>\<open>match_rate\<close> is a Python float, the result of one true division of two
  integers, and the threshold test compares two floats. Both are modelled by the binary64
  value nearest to the exact quotient (section \<open>Python floats\<close>); a float is represented
  by the real number it stands for.
\<close>

type_synonym dtype = string
type_synonym shape = "nat \<times> nat"

record 'v column =
  cname :: string
  ctype :: dtype
  cvals :: "'v option list"

type_synonym 'v dataframe = "'v column list"

definition columns :: "'v dataframe \<Rightarrow> string list" where
  "columns df = map cname df"

definition dtypes :: "'v dataframe \<Rightarrow> dtype list" where
  "dtypes df = map ctype df"

definition width :: "'v dataframe \<Rightarrow> nat" where
  "width df = length df"

text \<open>A frame without columns has no rows.\<close>

definition height :: "'v dataframe \<Rightarrow> nat" where
  "height df = (case df of [] \<Rightarrow> 0 | c # _ \<Rightarrow> length (cvals c))"

definition shape :: "'v dataframe \<Rightarrow> shape" where
  "shape df = (height df, width df)"

text \<open>
  The invariant every polars data frame satisfies: column names are unique and all
  columns have the same length.
\<close>

definition wf_df :: "'v dataframe \<Rightarrow> bool" where
  "wf_df df = (distinct (columns df) \<and> list_all (\<lambda>c. length (cvals c) = height df) df)"

text \<open>The exceptions the modelled code can raise.\<close>

datatype error = DuplicateError | ColumnNotFoundError | ZeroDivisionError | ShapeError

text \<open>
  \<^verbatim>\<open>CompareResult.details\<close> is an f-string. The model keeps the values that are
  formatted into it, one constructor per format string of the source.
\<close>

datatype detail_text =
    NoDetails
  | Shapes shape shape
  | DiffCols "string set"
  | TypeDiffs "(string \<times> dtype \<times> dtype) list"
  | FilesEmpty
  | RowsDiffer nat

record compare_result =
  status :: string
  match_rate :: real
  details :: detail_text
  shape1 :: shape
  shape2 :: shape

definition CompareResult ::
  "string \<Rightarrow> real \<Rightarrow> detail_text \<Rightarrow> shape \<Rightarrow> shape \<Rightarrow> compare_result" where
  "CompareResult s r d sh1 sh2 =
     \<lparr>status = s, match_rate = r, details = d, shape1 = sh1, shape2 = sh2\<rparr>"

section \<open>Python floats\<close>

text \<open>
  A non-negative binary64 value is a pair \<open>(m, e)\<close> that stands for \<open>m * 2 ^ e\<close>, with a
  mantissa \<open>m\<close> of at most 53 bits. The exponent is not bounded: quotients below
  \<open>2 ^ -1022\<close> (subnormal) or above the largest float do not occur for frames of fewer than
  \<open>2 ^ 1022\<close> rows.
\<close>

type_synonym float64 = "nat \<times> int"

definition float_val :: "float64 \<Rightarrow> real" where
  "float_val f =
     (if 0 \<le> snd f then real (fst f) * 2 ^ nat (snd f) else real (fst f) / 2 ^ nat (- snd f))"

text \<open>The number of binary digits of \<open>n\<close>.\<close>

fun bit_length :: "nat \<Rightarrow> nat" where
  "bit_length n = (if n = 0 then 0 else Suc (bit_length (n div 2)))"

declare bit_length.simps [simp del]

text \<open>The quotient \<open>a / b\<close> rounded to the nearest integer, a tie to the even one.\<close>

definition round_half_even :: "nat \<Rightarrow> nat \<Rightarrow> nat" where
  "round_half_even a b =
     (let q = a div b; r = a mod b
      in if 2 * r < b then q
         else if b < 2 * r then q + 1
         else if even q then q else q + 1)"

text \<open>The exponent \<open>t\<close> with \<open>2 ^ t \<le> a / b < 2 ^ (t + 1)\<close>, for positive \<open>a\<close> and \<open>b\<close>.\<close>

definition binade :: "nat \<Rightarrow> nat \<Rightarrow> int" where
  "binade a b =
     (let d = int (bit_length a) - int (bit_length b)
      in if (if 0 \<le> d then b * 2 ^ nat d \<le> a else b \<le> a * 2 ^ nat (- d)) then d else d - 1)"

text \<open>
  The binary64 value nearest to \<open>a / b\<close> (ties to even): the quotient is scaled into
  \<open>[2 ^ 52, 2 ^ 53]\<close>, rounded to an integer and scaled back.
\<close>

definition round_to_double :: "nat \<Rightarrow> nat \<Rightarrow> float64" where
  "round_to_double a b =
     (if a = 0 then (0, 0)
      else
       (let e = binade a b - 52
        in if e \<le> 0 then (round_half_even (a * 2 ^ nat (- e)) b, e)
           else (round_half_even a (b * 2 ^ nat e), e)))"

text \<open>
  Python's \<^verbatim>\<open>a / b\<close> on two integers, \<open>b\<close> not zero: the correctly rounded quotient.
\<close>

definition true_div :: "int \<Rightarrow> int \<Rightarrow> real" where
  "true_div a b =
     real_of_int (sgn a * sgn b) * float_val (round_to_double (nat \<bar>a\<bar>) (nat \<bar>b\<bar>))"

text \<open>The literal \<^verbatim>\<open>0.10\<close>: the binary64 value nearest to a tenth.\<close>

definition MISMATCH_THRESHOLD :: real where
  "MISMATCH_THRESHOLD = float_val (round_to_double 1 10)"

section \<open>Cell differences\<close>

text \<open>One row of the frame returned by \<^verbatim>\<open>_generate_differences_df\<close>.\<close>

record cell_difference =
  row_index :: nat
  column_name :: string
  column_type :: string
  value_v1 :: "string option"
  value_v2 :: "string option"

section \<open>Null-aware expressions\<close>

definition is_null :: "'a option \<Rightarrow> bool" where
  "is_null a = (a = None)"

definition is_not_null :: "'a option \<Rightarrow> bool" where
  "is_not_null a = (a \<noteq> None)"

text \<open>
  \<^verbatim>\<open>c1 != c2\<close>: null as soon as one side is null, and \<open>N\<close> on two non-null values.
\<close>

definition ne :: "('a \<Rightarrow> 'a \<Rightarrow> bool) \<Rightarrow> 'a option \<Rightarrow> 'a option \<Rightarrow> bool option" where
  "ne N a b = (case a of None \<Rightarrow> None
               | Some x \<Rightarrow> (case b of None \<Rightarrow> None | Some y \<Rightarrow> Some (N x y)))"

text \<open>\<^verbatim>\<open>!=\<close> on two strings.\<close>

definition str_ne :: "string \<Rightarrow> string \<Rightarrow> bool" where
  "str_ne x y = (x \<noteq> y)"

definition fill_null :: "'a option \<Rightarrow> 'a \<Rightarrow> 'a" where
  "fill_null a d = (case a of None \<Rightarrow> d | Some x \<Rightarrow> x)"

text \<open>The expression \<^verbatim>\<open>is_diff\<close> of \<^verbatim>\<open>_compare_data\<close>, at one row.\<close>

definition is_diff :: "('a \<Rightarrow> 'a \<Rightarrow> bool) \<Rightarrow> 'a option \<Rightarrow> 'a option \<Rightarrow> bool" where
  "is_diff N c1 c2 =
     ((is_null c1 \<and> is_not_null c2) \<or>
      (is_not_null c1 \<and> is_null c2) \<or>
      fill_null (ne N c1 c2) False)"

section \<open>Row matching\<close>

definition row_at :: "'v dataframe \<Rightarrow> nat \<Rightarrow> 'v option list" where
  "row_at df i = map (\<lambda>c. cvals c ! i) df"

text \<open>
  \<^verbatim>\<open>df.hash_rows()\<close>: one hash per row, a function \<open>H\<close> of the values of the row
  (polars fixes the seeds, so both frames are hashed by the same function).
\<close>

definition hash_rows :: "('v option list \<Rightarrow> 'h) \<Rightarrow> 'v dataframe \<Rightarrow> 'h list" where
  "hash_rows H df = map (\<lambda>i. H (row_at df i)) [0..<height df]"

text \<open>\<^verbatim>\<open>df2.rename({c: f"{c}_v2" for c in df2.columns})\<close>\<close>

definition rename_v2 :: "'v dataframe \<Rightarrow> 'v dataframe" where
  "rename_v2 df = map (\<lambda>c. c\<lparr>cname := cname c @ ''_v2''\<rparr>) df"

text \<open>
  \<^verbatim>\<open>pl.concat([a, b], how="horizontal")\<close>: the columns of both frames side by side;
  polars raises \<^verbatim>\<open>DuplicateError\<close> when a column name occurs twice in the result. The
  comparator calls it on frames of equal height only.
\<close>

definition concat_horizontal :: "'v dataframe \<Rightarrow> 'v dataframe \<Rightarrow> error + 'v dataframe" where
  "concat_horizontal a b =
     (if distinct (columns (a @ b)) then Inr (a @ b) else Inl DuplicateError)"

text \<open>
  \<^verbatim>\<open>pl.col(name)\<close> evaluated in a frame, the name taken literally. (polars reads the
  name \<open>*\<close> and names of the form \<open>^...$\<close> as patterns; the model does not cover sheets with
  such headers.)
\<close>

definition get_column :: "'v dataframe \<Rightarrow> string \<Rightarrow> 'v column option" where
  "get_column df n = find (\<lambda>c. cname c = n) df"

text \<open>
  The list \<^verbatim>\<open>exprs\<close>, evaluated in the combined frame: for every column name \<open>c\<close>
  of the first frame, \<^verbatim>\<open>is_diff\<close> of the columns \<open>c\<close> and \<open>c_v2\<close>, row by row.
\<close>

fun eval_exprs ::
  "('v \<Rightarrow> 'v \<Rightarrow> bool) \<Rightarrow> 'v dataframe \<Rightarrow> string list \<Rightarrow> error + bool list list" where
  "eval_exprs N combined [] = Inr []"
| "eval_exprs N combined (c # cs) =
     (case get_column combined c of
        None \<Rightarrow> Inl ColumnNotFoundError
      | Some c1 \<Rightarrow>
          (case get_column combined (c @ ''_v2'') of
             None \<Rightarrow> Inl ColumnNotFoundError
           | Some c2 \<Rightarrow>
               (case eval_exprs N combined cs of
                  Inl e \<Rightarrow> Inl e
                | Inr es \<Rightarrow> Inr (map2 (is_diff N) (cvals c1) (cvals c2) # es))))"

text \<open>\<^verbatim>\<open>pl.any_horizontal(exprs)\<close> selected in a frame of \<open>n\<close> rows.\<close>

definition any_horizontal :: "nat \<Rightarrow> bool list list \<Rightarrow> bool list" where
  "any_horizontal n exprs = map (\<lambda>i. list_ex (\<lambda>e. e ! i) exprs) [0..<n]"

definition fieldwise_mask ::
  "('v \<Rightarrow> 'v \<Rightarrow> bool) \<Rightarrow> 'v dataframe \<Rightarrow> 'v dataframe \<Rightarrow> error + bool list" where
  "fieldwise_mask N df1 df2 =
     (case concat_horizontal df1 (rename_v2 df2) of
        Inl e \<Rightarrow> Inl e
      | Inr combined \<Rightarrow>
          (case eval_exprs N combined (columns df1) of
             Inl e \<Rightarrow> Inl e
           | Inr exprs \<Rightarrow> Inr (any_horizontal (height combined) exprs)))"

text \<open>
  The first statement of \<^verbatim>\<open>_compare_data\<close>: the mismatch mask, by hashes
  (\<^verbatim>\<open>h1 != h2\<close>, element by element) or field by field.
\<close>

definition mismatch_mask ::
  "('v option list \<Rightarrow> 'h) \<Rightarrow> ('v \<Rightarrow> 'v \<Rightarrow> bool) \<Rightarrow> bool \<Rightarrow> 'v dataframe \<Rightarrow> 'v dataframe \<Rightarrow>
   error + bool list" where
  "mismatch_mask H N use_hash df1 df2 =
     (if use_hash then Inr (map2 (\<lambda>h1 h2. h1 \<noteq> h2) (hash_rows H df1) (hash_rows H df2))
      else fieldwise_mask N df1 df2)"

text \<open>\<^verbatim>\<open>mismatch_mask.sum()\<close>\<close>

definition mask_sum :: "bool list \<Rightarrow> nat" where
  "mask_sum msk = length (filter (\<lambda>b. b) msk)"

section \<open>Generating the differences\<close>

text \<open>
  \<^verbatim>\<open>df.with_row_index("Row Index")\<close>: the index column holds naturals, so the indexed
  frame is a pair of the index column and the frame. polars raises
  \<^verbatim>\<open>DuplicateError\<close> when the frame already has a column of that name.
\<close>

definition with_row_index :: "'v dataframe \<Rightarrow> error + (nat list \<times> 'v dataframe)" where
  "with_row_index df =
     (if ''Row Index'' \<in> set (columns df) then Inl DuplicateError
      else Inr ([0..<height df], df))"

text \<open>
  \<^verbatim>\<open>.filter(mismatch_mask)\<close>. The mask must have one entry per row; polars repeats the
  entry of a mask of length one for every row and raises \<^verbatim>\<open>ShapeError\<close> on any other
  length.
\<close>

definition broadcast_mask :: "nat \<Rightarrow> bool list \<Rightarrow> error + bool list" where
  "broadcast_mask n msk =
     (if length msk = n then Inr msk
      else if length msk = 1 then Inr (replicate n (msk ! 0))
      else Inl ShapeError)"

text \<open>The entries of a column that a mask of the column's length keeps.\<close>

definition filter_mask :: "bool list \<Rightarrow> 'a list \<Rightarrow> 'a list" where
  "filter_mask msk xs = map fst (filter snd (zip xs msk))"

definition filter_rows ::
  "bool list \<Rightarrow> nat list \<times> 'v dataframe \<Rightarrow> error + nat list \<times> 'v dataframe" where
  "filter_rows msk f =
     (case broadcast_mask (length (fst f)) msk of
        Inl e \<Rightarrow> Inl e
      | Inr b \<Rightarrow>
          Inr (filter_mask b (fst f), map (\<lambda>c. c\<lparr>cvals := filter_mask b (cvals c)\<rparr>) (snd f)))"

text \<open>
  The selection \<^verbatim>\<open>["Row Index"] + [pl.col(c).cast(pl.Utf8) for c in df.columns]\<close>:
  every column of the frame, in order, cast to strings by \<open>R\<close> (the rendering of a
  non-null value; a null stays null).
\<close>

definition cast_utf8 :: "('v \<Rightarrow> string) \<Rightarrow> nat list \<times> 'v dataframe \<Rightarrow> nat list \<times> string dataframe" where
  "cast_utf8 R f =
     (fst f, map (\<lambda>c. \<lparr>cname = cname c, ctype = ''String'', cvals = map (map_option R) (cvals c)\<rparr>) (snd f))"

text \<open>
  \<^verbatim>\<open>unpivot(index="Row Index", variable_name=..., value_name=...)\<close>: column after column,
  one record per row. polars raises \<^verbatim>\<open>DuplicateError\<close> when a column of the frame
  already has the name of the variable or of the value column.
\<close>

definition unpivot ::
  "string \<Rightarrow> string \<Rightarrow> nat list \<times> string dataframe \<Rightarrow>
   error + (nat \<times> string \<times> string option) list" where
  "unpivot variable_name value_name f =
     (if variable_name \<in> set (columns (snd f)) \<or> value_name \<in> set (columns (snd f))
      then Inl DuplicateError
      else Inr (concat (map (\<lambda>c. map (\<lambda>(i, v). (i, cname c, v)) (zip (fst f) (cvals c))) (snd f))))"

text \<open>\<^verbatim>\<open>melt1.join(melt2, on=["Row Index", "Column Name"])\<close>, an inner join.\<close>

definition join_melted ::
  "(nat \<times> string \<times> string option) list \<Rightarrow> (nat \<times> string \<times> string option) list \<Rightarrow>
   (nat \<times> string \<times> string option \<times> string option) list" where
  "join_melted melt1 melt2 =
     concat (map (\<lambda>(i, n, v1).
       map (\<lambda>(i', n', v2). (i, n, v1, v2)) (filter (\<lambda>(i', n', v2). i' = i \<and> n' = n) melt2)) melt1)"

text \<open>
  The filter that keeps the cells that differ. It compares the two strings of the melted
  frames, not the values they were cast from.
\<close>

definition differs :: "nat \<times> string \<times> string option \<times> string option \<Rightarrow> bool" where
  "differs r = (case r of (i, n, v1, v2) \<Rightarrow>
     fill_null (ne str_ne v1 v2) True \<and> \<not> (is_null v1 \<and> is_null v2))"

text \<open>\<^verbatim>\<open>schema_df\<close> and the join on \<^verbatim>\<open>"Column Name"\<close> that attaches the type.\<close>

definition schema_df :: "'v dataframe \<Rightarrow> (string \<times> string) list" where
  "schema_df df = zip (columns df) (dtypes df)"

definition join_schema ::
  "(nat \<times> string \<times> string option \<times> string option) list \<Rightarrow> (string \<times> string) list \<Rightarrow>
   cell_difference list" where
  "join_schema ds schema =
     concat (map (\<lambda>(i, n, v1, v2).
       map (\<lambda>(n', t). \<lparr>row_index = i, column_name = n, column_type = t,
                       value_v1 = v1, value_v2 = v2\<rparr>)
           (filter (\<lambda>(n', t). n' = n) schema)) ds)"

definition diff_key :: "cell_difference \<Rightarrow> nat \<times> string" where
  "diff_key d = (row_index d, column_name d)"

definition generate_differences_df ::
  "('v \<Rightarrow> string) \<Rightarrow> 'v dataframe \<Rightarrow> 'v dataframe \<Rightarrow> bool list \<Rightarrow> error + cell_difference list" where
  "generate_differences_df R df1 df2 msk =
     (case with_row_index df1 of Inl e \<Rightarrow> Inl e | Inr i1 \<Rightarrow>
     (case filter_rows msk i1 of Inl e \<Rightarrow> Inl e | Inr df1_idx \<Rightarrow>
     (case with_row_index df2 of Inl e \<Rightarrow> Inl e | Inr i2 \<Rightarrow>
     (case filter_rows msk i2 of Inl e \<Rightarrow> Inl e | Inr df2_idx \<Rightarrow>
       (let df1_str = cast_utf8 R df1_idx;
            df2_str = cast_utf8 R df2_idx
        in
     (case unpivot ''Column Name'' ''Value V1'' df1_str of Inl e \<Rightarrow> Inl e | Inr melt1 \<Rightarrow>
     (case unpivot ''Column Name'' ''Value V2'' df2_str of Inl e \<Rightarrow> Inl e | Inr melt2 \<Rightarrow>
       (let diff_df = join_melted melt1 melt2;
            diff_df = filter differs diff_df;
            diff_df = join_schema diff_df (schema_df df1)
        in Inr (sort_key diff_key diff_df)))))))))"

section \<open>The comparator\<close>

text \<open>
  \<^verbatim>\<open>_compare_data\<close>. The status of the high-mismatch result is an f-string of
  \<^verbatim>\<open>Config.MISMATCH_THRESHOLD*100\<close>, the float \<open>10.0\<close> (see \<open>threshold_percent\<close>).
\<close>

definition compare_data ::
  "('v option list \<Rightarrow> 'h) \<Rightarrow> ('v \<Rightarrow> 'v \<Rightarrow> bool) \<Rightarrow> ('v \<Rightarrow> string) \<Rightarrow> bool \<Rightarrow>
   'v dataframe \<Rightarrow> 'v dataframe \<Rightarrow> shape \<Rightarrow> shape \<Rightarrow>
   error + (compare_result \<times> cell_difference list option)" where
  "compare_data H N R use_hash df1 df2 sh1 sh2 =
     (case mismatch_mask H N use_hash df1 df2 of
        Inl e \<Rightarrow> Inl e
      | Inr msk \<Rightarrow>
          (let mismatch_count = mask_sum msk;
               total_rows = height df1
           in if total_rows = 0 then Inl ZeroDivisionError
              else
               (let match_rate = true_div (int total_rows - int mismatch_count) (int total_rows)
                in if mismatch_count = 0 then
                     Inr (CompareResult ''Perfect match'' 1 NoDetails sh1 sh2, None)
                   else if true_div (int mismatch_count) (int total_rows) > MISMATCH_THRESHOLD then
                     Inr (CompareResult ''Data mismatch >10.0%'' match_rate
                            (RowsDiffer mismatch_count) sh1 sh2, None)
                   else
                     (case generate_differences_df R df1 df2 msk of
                        Inl e \<Rightarrow> Inl e
                      | Inr diff_df \<Rightarrow>
                          Inr (CompareResult ''Data mismatch'' match_rate
                                 (RowsDiffer mismatch_count) sh1 sh2, Some diff_df)))))"

definition type_diff :: "'v dataframe \<Rightarrow> 'v dataframe \<Rightarrow> (string \<times> dtype \<times> dtype) list" where
  "type_diff df1 df2 =
     filter (\<lambda>(c, t1, t2). t1 \<noteq> t2) (zip (columns df1) (zip (dtypes df1) (dtypes df2)))"

definition compare ::
  "('v option list \<Rightarrow> 'h) \<Rightarrow> ('v \<Rightarrow> 'v \<Rightarrow> bool) \<Rightarrow> ('v \<Rightarrow> string) \<Rightarrow> bool \<Rightarrow>
   'v dataframe \<Rightarrow> 'v dataframe \<Rightarrow>
   error + (compare_result \<times> cell_difference list option)" where
  "compare H N R use_hash df1 df2 =
     (let sh1 = shape df1; sh2 = shape df2
      in if sh1 \<noteq> sh2 then
           Inr (CompareResult ''Shape mismatch'' 0 (Shapes sh1 sh2) sh1 sh2, None)
         else if columns df1 \<noteq> columns df2 then
           Inr (CompareResult ''Column names mismatch'' 0
                  (DiffCols (sym_diff (set (columns df1)) (set (columns df2)))) sh1 sh2, None)
         else if dtypes df1 \<noteq> dtypes df2 then
           Inr (CompareResult ''Column type mismatch'' 0 (TypeDiffs (type_diff df1 df2)) sh1 sh2, None)
         else if fst sh1 = 0 then
           Inr (CompareResult ''Perfect match'' 1 FilesEmpty sh1 sh2, None)
         else compare_data H N R use_hash df1 df2 sh1 sh2)"

section \<open>Notions of the specification\<close>

text \<open>The cell in row \<open>i\<close> of the \<open>j\<close>-th column.\<close>

definition cell :: "'v dataframe \<Rightarrow> nat \<Rightarrow> nat \<Rightarrow> 'v option" where
  "cell df i j = cvals (df ! j) ! i"

text \<open>
  The field-wise inequality in the words of the specification: a cell is mismatched iff
  exactly one side is null, or both sides are non-null and the values are unequal
  (unequal as \<^verbatim>\<open>!=\<close> finds them, that is by \<open>N\<close>).
\<close>

definition spec_cell_mismatch :: "('a \<Rightarrow> 'a \<Rightarrow> bool) \<Rightarrow> 'a option \<Rightarrow> 'a option \<Rightarrow> bool" where
  "spec_cell_mismatch N a b =
     (((a = None) \<noteq> (b = None)) \<or>
      (case a of None \<Rightarrow> False | Some x \<Rightarrow> (case b of None \<Rightarrow> False | Some y \<Rightarrow> N x y)))"

text \<open>
  The rate in the words of the specification, \<^verbatim>\<open>1.0 - mismatch_count/rows\<close>, computed as
  Python computes it: the quotient is rounded to a float, and so is the difference.
  \<open>one_minus\<close> is the float subtraction \<^verbatim>\<open>1.0 - x\<close> for a float \<open>x\<close> between 0 and 1.
\<close>

definition one_minus :: "float64 \<Rightarrow> float64" where
  "one_minus f = (let s = nat (- snd f) in round_to_double (2 ^ s - fst f) (2 ^ s))"

definition spec_match_rate :: "nat \<Rightarrow> nat \<Rightarrow> real" where
  "spec_match_rate mismatch_count rows =
     float_val (one_minus (round_to_double mismatch_count rows))"

section \<open>Example sheets\<close>

text \<open>
  Sheets of string columns, for which the cast to \<^verbatim>\<open>Utf8\<close> is the identity. The second
  version differs from the first in row 1 of column \<open>val\<close>, where the first has a null.
\<close>

definition sheet_v1 :: "string dataframe" where
  "sheet_v1 =
     [\<lparr>cname = ''id'', ctype = ''String'', cvals = [Some ''1'', Some ''2'']\<rparr>,
      \<lparr>cname = ''val'', ctype = ''String'', cvals = [Some ''a'', None]\<rparr>]"

definition sheet_v2 :: "string dataframe" where
  "sheet_v2 =
     [\<lparr>cname = ''id'', ctype = ''String'', cvals = [Some ''1'', Some ''2'']\<rparr>,
      \<lparr>cname = ''val'', ctype = ''String'', cvals = [Some ''a'', Some ''b'']\<rparr>]"

text \<open>The columns of \<open>sheet_v1\<close> in the other order.\<close>

definition sheet_swapped :: "string dataframe" where
  "sheet_swapped =
     [\<lparr>cname = ''val'', ctype = ''String'', cvals = [Some ''a'', None]\<rparr>,
      \<lparr>cname = ''id'', ctype = ''String'', cvals = [Some ''1'', Some ''2'']\<rparr>]"

text \<open>One row only.\<close>

definition sheet_short :: "string dataframe" where
  "sheet_short =
     [\<lparr>cname = ''id'', ctype = ''String'', cvals = [Some ''1'']\<rparr>,
      \<lparr>cname = ''val'', ctype = ''String'', cvals = [Some ''a'']\<rparr>]"

text \<open>Headers only.\<close>

definition sheet_headers :: "string dataframe" where
  "sheet_headers =
     [\<lparr>cname = ''id'', ctype = ''String'', cvals = []\<rparr>,
      \<lparr>cname = ''val'', ctype = ''String'', cvals = []\<rparr>]"

text \<open>A sheet with the headers \<open>a\<close> and \<open>a_v2\<close>.\<close>

definition sheet_suffix :: "string dataframe" where
  "sheet_suffix =
     [\<lparr>cname = ''a'', ctype = ''String'', cvals = [Some ''1'']\<rparr>,
      \<lparr>cname = ''a_v2'', ctype = ''String'', cvals = [Some ''2'']\<rparr>]"

section \<open>Auxiliary notions for the differences\<close>

text \<open>
  The melted frame of \<^verbatim>\<open>_generate_differences_df\<close>, when no step raises: index,
  filter by a mask \<open>b\<close> of one entry per row, cast and unpivot of one input frame.
\<close>

definition melted ::
  "('v \<Rightarrow> string) \<Rightarrow> bool list \<Rightarrow> 'v dataframe \<Rightarrow> (nat \<times> string \<times> string option) list" where
  "melted R b df =
     concat (map (\<lambda>c. map (\<lambda>(i, v). (i, cname c, v))
       (zip (filter_mask b [0..<height df]) (map (map_option R) (filter_mask b (cvals c))))) df)"

text \<open>The join keys: row index and column name.\<close>

definition key3 :: "nat \<times> string \<times> 'a \<Rightarrow> nat \<times> string" where
  "key3 r = (fst r, fst (snd r))"

definition key4 :: "nat \<times> string \<times> string option \<times> string option \<Rightarrow> nat \<times> string" where
  "key4 r = (fst r, fst (snd r))"

section \<open>A ten-row example\<close>

text \<open>
  Two versions of a sheet of ten rows that differ in row 3 only: in \<open>qty\<close> by value and
  in \<open>name\<close> by a null; \<open>note\<close> is null on both sides throughout.
\<close>

definition ledger_v1 :: "string dataframe" where
  "ledger_v1 =
     [\<lparr>cname = ''qty'', ctype = ''String'',
       cvals = [Some ''1'', Some ''2'', Some ''3'', Some ''5'', Some ''5'',
                Some ''6'', Some ''7'', Some ''8'', Some ''9'', Some ''10'']\<rparr>,
      \<lparr>cname = ''name'', ctype = ''String'',
       cvals = [Some ''a'', Some ''b'', Some ''c'', None, Some ''e'',
                Some ''f'', Some ''g'', Some ''h'', Some ''i'', Some ''j'']\<rparr>,
      \<lparr>cname = ''note'', ctype = ''String'',
       cvals = [None, None, None, None, None, None, None, None, None, None]\<rparr>]"

definition ledger_v2 :: "string dataframe" where
  "ledger_v2 =
     [\<lparr>cname = ''qty'', ctype = ''String'',
       cvals = [Some ''1'', Some ''2'', Some ''3'', Some ''4'', Some ''5'',
                Some ''6'', Some ''7'', Some ''8'', Some ''9'', Some ''10'']\<rparr>,
      \<lparr>cname = ''name'', ctype = ''String'',
       cvals = [Some ''a'', Some ''b'', Some ''c'', Some ''d'', Some ''e'',
                Some ''f'', Some ''g'', Some ''h'', Some ''i'', Some ''j'']\<rparr>,
      \<lparr>cname = ''note'', ctype = ''String'',
       cvals = [None, None, None, None, None, None, None, None, None, None]\<rparr>]"

definition ledger_mask :: "bool list" where
  "ledger_mask = [False, False, False, True, False, False, False, False, False, False]"

definition ledger_diffs :: "cell_difference list" where
  "ledger_diffs =
     [\<lparr>row_index = 3, column_name = ''name'', column_type = ''String'',
       value_v1 = None, value_v2 = Some ''d''\<rparr>,
      \<lparr>row_index = 3, column_name = ''qty'', column_type = ''String'',
       value_v1 = Some ''5'', value_v2 = Some ''4''\<rparr>]"

section \<open>A three-row example\<close>

text \<open>Two versions of a sheet of three rows that differ in row 1.\<close>

definition trio_v1 :: "string dataframe" where
  "trio_v1 = [\<lparr>cname = ''val'', ctype = ''String'', cvals = [Some ''a'', Some ''b'', Some ''c'']\<rparr>]"

definition trio_v2 :: "string dataframe" where
  "trio_v2 = [\<lparr>cname = ''val'', ctype = ''String'', cvals = [Some ''a'', Some ''x'', Some ''c'']\<rparr>]"

section \<open>An example with the two zeros of Float64\<close>

text \<open>
  Values that are strings or one of the two zeros of Float64. \<^verbatim>\<open>!=\<close> finds the two zeros
  equal; the cast to \<^verbatim>\<open>Utf8\<close> renders them differently.
\<close>

datatype sample_value = Str string | Zero | NegZero

fun sample_ne :: "sample_value \<Rightarrow> sample_value \<Rightarrow> bool" where
  "sample_ne (Str a) (Str b) = (a \<noteq> b)"
| "sample_ne (Str a) Zero = True"
| "sample_ne (Str a) NegZero = True"
| "sample_ne Zero (Str b) = True"
| "sample_ne NegZero (Str b) = True"
| "sample_ne Zero Zero = False"
| "sample_ne Zero NegZero = False"
| "sample_ne NegZero Zero = False"
| "sample_ne NegZero NegZero = False"

fun sample_cast :: "sample_value \<Rightarrow> string" where
  "sample_cast (Str a) = a"
| "sample_cast Zero = ''0.0''"
| "sample_cast NegZero = ''-0.0''"

text \<open>
  Two versions of a sheet of ten rows. In row 3 the names differ, and \<open>qty\<close> is \<open>0.0\<close> in
  the first version and \<open>-0.0\<close> in the second.
\<close>

definition zeros_v1 :: "sample_value dataframe" where
  "zeros_v1 =
     [\<lparr>cname = ''qty'', ctype = ''Float64'',
       cvals = [Some Zero, Some Zero, Some Zero, Some Zero, Some Zero,
                Some Zero, Some Zero, Some Zero, Some Zero, Some Zero]\<rparr>,
      \<lparr>cname = ''name'', ctype = ''String'',
       cvals = [Some (Str ''a''), Some (Str ''b''), Some (Str ''c''), Some (Str ''d''),
                Some (Str ''e''), Some (Str ''f''), Some (Str ''g''), Some (Str ''h''),
                Some (Str ''i''), Some (Str ''j'')]\<rparr>]"

definition zeros_v2 :: "sample_value dataframe" where
  "zeros_v2 =
     [\<lparr>cname = ''qty'', ctype = ''Float64'',
       cvals = [Some Zero, Some Zero, Some Zero, Some NegZero, Some Zero,
                Some Zero, Some Zero, Some Zero, Some Zero, Some Zero]\<rparr>,
      \<lparr>cname = ''name'', ctype = ''String'',
       cvals = [Some (Str ''a''), Some (Str ''b''), Some (Str ''c''), Some (Str ''x''),
                Some (Str ''e''), Some (Str ''f''), Some (Str ''g''), Some (Str ''h''),
                Some (Str ''i''), Some (Str ''j'')]\<rparr>]"

definition zeros_diffs :: "cell_difference list" where
  "zeros_diffs =
     [\<lparr>row_index = 3, column_name = ''name'', column_type = ''String'',
       value_v1 = Some ''d'', value_v2 = Some ''x''\<rparr>,
      \<lparr>row_index = 3, column_name = ''qty'', column_type = ''Float64'',
       value_v1 = Some ''0.0'', value_v2 = Some ''-0.0''\<rparr>]"

lemmas sheet_defs =
  sheet_v1_def sheet_v2_def sheet_swapped_def sheet_short_def sheet_headers_def sheet_suffix_def
  ledger_v1_def ledger_v2_def ledger_mask_def ledger_diffs_def trio_v1_def trio_v2_def
  zeros_v1_def zeros_v2_def zeros_diffs_def

lemmas frame_defs = shape_def height_def width_def columns_def dtypes_def wf_df_def cell_def

section \<open>Facts about floats\<close>

lemmas float_defs = float_val_def round_to_double_def binade_def round_half_even_def Let_def
  bit_length.simps

lemma bit_length_mono: "a \<le> b \<Longrightarrow> bit_length a \<le> bit_length b"
proof (induction a arbitrary: b rule: bit_length.induct)
  case (1 n)
  show ?case
  proof (cases "n = 0")
    case True
    then show ?thesis by (simp add: bit_length.simps)
  next
    case False
    with 1(2) have b: "b \<noteq> 0" by simp
    have "n div 2 \<le> b div 2"
      using 1(2) by (rule div_le_mono)
    from 1(1) [OF False this] False b show ?thesis
      by (simp add: bit_length.simps [of n] bit_length.simps [of b])
  qed
qed

lemma binade_le_0: "a \<le> b \<Longrightarrow> binade a b \<le> 0"
  using bit_length_mono [of a b] by (simp add: binade_def Let_def)

lemma binade_same: "0 < n \<Longrightarrow> binade n n = 0"
  by (simp add: binade_def)

lemma round_half_even_error:
  assumes "0 < b"
  shows "\<bar>real (round_half_even a b) - real a / real b\<bar> \<le> 1 / 2"
proof -
  let ?q = "a div b" and ?r = "a mod b"
  have eq: "real a / real b = real ?q + real ?r / real b"
    by (rule of_nat_of_nat_div_aux)
  have rb: "real ?r / real b < 1" "0 \<le> real ?r / real b"
    using assms by simp_all
  consider "2 * ?r < b" | "b < 2 * ?r" | "2 * ?r = b" by linarith
  then show ?thesis
  proof cases
    case 1
    then have "real ?r / real b < 1 / 2"
      using assms by (simp add: field_simps)
    with 1 rb show ?thesis
      by (simp add: round_half_even_def Let_def eq)
  next
    case 2
    then have "1 / 2 < real ?r / real b"
      using assms by (simp add: field_simps)
    with 2 rb show ?thesis
      by (simp add: round_half_even_def Let_def eq)
  next
    case 3
    then have "real ?r / real b = 1 / 2"
      using assms by (simp add: field_simps)
    with 3 show ?thesis
      by (simp add: round_half_even_def Let_def eq)
  qed
qed

lemma round_half_even_le:
  assumes "0 < b" "a \<le> c * b"
  shows "round_half_even a b \<le> c"
proof -
  have q: "a div b \<le> c"
    using assms by (metis div_le_mono nonzero_mult_div_cancel_right less_numeral_extra(3))
  show ?thesis
  proof (cases "a div b = c")
    case True
    then have "c * b \<le> a"
      by (metis div_mult_mod_eq le_add1 mult.commute)
    with assms(2) have "a = c * b" by simp
    then have "a mod b = 0" by simp
    with assms(1) True show ?thesis
      by (simp add: round_half_even_def Let_def)
  next
    case False
    with q have "a div b < c" by simp
    then show ?thesis
      by (simp add: round_half_even_def Let_def)
  qed
qed

text \<open>The rounded quotient of two naturals, the first at most the second.\<close>

lemma round_to_double_unit:
  assumes "0 < a" "a \<le> b"
  shows "float_val (round_to_double a b) =
           real (round_half_even (a * 2 ^ nat (52 - binade a b)) b) / 2 ^ nat (52 - binade a b)"
  using assms binade_le_0 [OF assms(2)]
  by (simp add: round_to_double_def float_val_def Let_def)

lemma float_div_bounds:
  assumes "0 < b" "a \<le> b"
  shows "0 \<le> float_val (round_to_double a b) \<and> float_val (round_to_double a b) \<le> 1 \<and>
         \<bar>float_val (round_to_double a b) - real a / real b\<bar> \<le> 1 / 2 ^ 53"
proof (cases "a = 0")
  case True
  then show ?thesis
    by (simp add: round_to_double_def float_val_def)
next
  case False
  then have a: "0 < a" by simp
  define s where "s = nat (52 - binade a b)"
  have s: "52 \<le> s"
    using binade_le_0 [OF assms(2)] by (simp add: s_def)
  define m where "m = round_half_even (a * 2 ^ s) b"
  have v: "float_val (round_to_double a b) = real m / 2 ^ s"
    using round_to_double_unit [OF a assms(2)] by (simp add: m_def s_def)
  have "a * 2 ^ s \<le> 2 ^ s * b"
    using assms(2) by simp
  from round_half_even_le [OF assms(1) this] have "m \<le> 2 ^ s"
    by (simp add: m_def)
  then have "real m \<le> 2 ^ s"
    by (metis of_nat_le_iff of_nat_numeral of_nat_power)
  then have le1: "real m / 2 ^ s \<le> 1"
    by simp
  have "\<bar>real m - real (a * 2 ^ s) / real b\<bar> \<le> 1 / 2"
    unfolding m_def using assms(1) by (rule round_half_even_error)
  then have "\<bar>real m - real a / real b * 2 ^ s\<bar> \<le> 1 / 2"
    by simp
  then have "\<bar>real m - real a / real b * 2 ^ s\<bar> / 2 ^ s \<le> (1 / 2) / 2 ^ s"
    by (rule divide_right_mono) simp
  moreover have "\<bar>real m - real a / real b * 2 ^ s\<bar> / 2 ^ s = \<bar>real m / 2 ^ s - real a / real b\<bar>"
  proof -
    have "real m / 2 ^ s - real a / real b = (real m - real a / real b * 2 ^ s) / 2 ^ s"
      by (simp add: field_simps)
    then have "\<bar>real m / 2 ^ s - real a / real b\<bar> = \<bar>(real m - real a / real b * 2 ^ s) / 2 ^ s\<bar>"
      by (simp only:)
    also have "\<dots> = \<bar>real m - real a / real b * 2 ^ s\<bar> / 2 ^ s"
      by (simp only: abs_divide) simp
    finally show ?thesis by simp
  qed
  moreover have "(1 / 2) / (2::real) ^ s \<le> 1 / 2 ^ 53"
  proof -
    have "(2::real) ^ 53 \<le> 2 ^ Suc s"
      using s by (intro power_increasing) simp_all
    then have "1 / (2::real) ^ Suc s \<le> 1 / 2 ^ 53"
      by (intro divide_left_mono) simp_all
    then show ?thesis by simp
  qed
  ultimately have "\<bar>real m / 2 ^ s - real a / real b\<bar> \<le> 1 / 2 ^ 53"
    by linarith
  with le1 v show ?thesis by simp
qed

lemma round_to_double_same: "0 < n \<Longrightarrow> float_val (round_to_double n n) = 1"
  by (simp add: round_to_double_def float_val_def binade_same round_half_even_def Let_def)

lemma true_div_nat:
  "0 < b \<Longrightarrow> true_div (int a) (int b) = float_val (round_to_double a b)"
  by (cases "a = 0") (simp_all add: true_div_def round_to_double_def float_val_def)

lemma true_div_diff:
  "0 < n \<Longrightarrow> k \<le> n \<Longrightarrow>
   true_div (int n - int k) (int n) = float_val (round_to_double (n - k) n)"
  using true_div_nat [of n "n - k"] by (simp add: of_nat_diff)

lemma MISMATCH_THRESHOLD_value: "MISMATCH_THRESHOLD = 3602879701896397 / 36028797018963968"
  by (simp add: MISMATCH_THRESHOLD_def float_defs)

text \<open>The float product \<^verbatim>\<open>0.10 * 100\<close> is the float \<open>10.0\<close>.\<close>

lemma threshold_percent:
  "round_to_double 1 10 = (7205759403792794, - 56) \<and>
   float_val (round_to_double (7205759403792794 * 100) (2 ^ 56)) = 10"
  by (simp add: float_defs)

lemma threshold_exceeded_imp:
  assumes "0 < n" "k \<le> n" "true_div (int k) (int n) > MISMATCH_THRESHOLD"
  shows "n < 20 * k"
proof (rule ccontr)
  assume "\<not> n < 20 * k"
  then have "20 * k \<le> n" by simp
  then have "real k / real n \<le> 1 / 20"
    using assms(1) by (simp add: field_simps)
  moreover from float_div_bounds [OF assms(1,2)]
  have "float_val (round_to_double k n) \<le> real k / real n + 1 / 2 ^ 53"
    by linarith
  ultimately have "float_val (round_to_double k n) \<le> 1 / 20 + 1 / 2 ^ 53"
    by linarith
  with assms(3) show False
    by (simp add: true_div_nat [OF assms(1)] MISMATCH_THRESHOLD_value)
qed

lemma rate_below_one:
  assumes "0 < n" "k \<le> n" "n < 20 * k"
  shows "true_div (int n - int k) (int n) < 1"
proof -
  have "20 * (n - k) < 19 * n"
    using assms by linarith
  then have "real (n - k) / real n < 19 / 20"
    using assms(1) by (simp add: field_simps)
  moreover have "n - k \<le> n"
    by simp
  from float_div_bounds [OF assms(1) this]
  have "float_val (round_to_double (n - k) n) \<le> real (n - k) / real n + 1 / 2 ^ 53"
    by linarith
  ultimately show ?thesis
    by (simp add: true_div_diff [OF assms(1,2)])
qed


subsection \<open>The threshold test\<close>

text \<open>
  For frames of at most \<open>2 ^ 49\<close> rows the test on floats decides whether the exact ratio
  exceeds a tenth.
\<close>

lemma bit_length_bounds:
  "0 < n \<Longrightarrow> 2 ^ (bit_length n - 1) \<le> n \<and> n < 2 ^ bit_length n"
proof (induction n rule: bit_length.induct)
  case (1 n)
  show ?case
  proof (cases "n div 2 = 0")
    case True
    with 1(2) have "n = 1" by (simp add: div_eq_0_iff) 
    then show ?thesis
      by (simp add: bit_length.simps)
  next
    case False
    then have pos: "0 < n div 2" by simp
    from 1(2) have n0: "n \<noteq> 0" by simp
    from 1(1) [OF n0 pos]
    have ih: "2 ^ (bit_length (n div 2) - 1) \<le> n div 2" "n div 2 < 2 ^ bit_length (n div 2)"
      by simp_all
    have bl: "bit_length n = Suc (bit_length (n div 2))"
      using n0 by (simp add: bit_length.simps [of n])
    have blpos: "0 < bit_length (n div 2)"
      using pos by (simp add: bit_length.simps [of "n div 2"])
    have "2 * 2 ^ (bit_length (n div 2) - 1) \<le> n"
      using ih(1) by linarith
    moreover have "2 * 2 ^ (bit_length (n div 2) - 1) = (2::nat) ^ bit_length (n div 2)"
      using blpos by (cases "bit_length (n div 2)") simp_all
    moreover have "n < 2 * 2 ^ bit_length (n div 2)"
      using ih(2) by linarith
    ultimately show ?thesis
      by (simp add: bl)
  qed
qed

text \<open>For a quotient of at most one, the exponent is the one the text of \<open>binade\<close> names.\<close>

lemma binade_unit:
  assumes "0 < a" "a \<le> b"
  shows "b \<le> a * 2 ^ nat (- binade a b) \<and> a * 2 ^ nat (- binade a b) < 2 * b"
proof -
  define D where "D = bit_length b - bit_length a"
  have le: "bit_length a \<le> bit_length b"
    using assms(2) by (rule bit_length_mono)
  have d: "int (bit_length a) - int (bit_length b) = - int D"
    using le by (simp add: D_def)
  have sum: "bit_length a + D = bit_length b"
    using le by (simp add: D_def)
  from assms have b: "0 < b" by simp
  have ba: "2 ^ (bit_length a - 1) \<le> a" "a < 2 ^ bit_length a"
    using bit_length_bounds [OF assms(1)] by simp_all
  have bb: "2 ^ (bit_length b - 1) \<le> b" "b < 2 ^ bit_length b"
    using bit_length_bounds [OF b] by simp_all
  have pa: "0 < bit_length a"
    using assms(1) by (simp add: bit_length.simps [of a])
  have pb: "0 < bit_length b"
    using b by (simp add: bit_length.simps [of b])
  have bin: "binade a b = (if b \<le> a * 2 ^ D then - int D else - int D - 1)"
  proof (cases "D = 0")
    case True
    then show ?thesis by (simp add: binade_def Let_def d)
  next
    case False
    then show ?thesis by (simp add: binade_def Let_def d)
  qed
  have up: "a * 2 ^ D < 2 * b"
  proof -
    have "a * 2 ^ D < 2 ^ bit_length a * 2 ^ D"
      using ba(2) by simp
    also have "\<dots> = 2 ^ bit_length b"
      by (simp add: power_add [symmetric] sum)
    also have "\<dots> = 2 * 2 ^ (bit_length b - 1)"
      using pb by (cases "bit_length b") simp_all
    also have "\<dots> \<le> 2 * b"
      using bb(1) by simp
    finally show ?thesis .
  qed
  have low: "b \<le> a * 2 ^ Suc D"
  proof -
    have "b < 2 ^ bit_length b" by (rule bb(2))
    also have "\<dots> = 2 ^ (bit_length a - 1) * 2 ^ Suc D"
    proof -
      have "bit_length b = (bit_length a - 1) + Suc D"
        using pa sum by simp
      then show ?thesis
        by (simp only: power_add)
    qed
    also have "\<dots> \<le> a * 2 ^ Suc D"
      using ba(1) by (intro mult_right_mono) simp_all
    finally show ?thesis by simp
  qed
  show ?thesis
  proof (cases "b \<le> a * 2 ^ D")
    case True
    then have "binade a b = - int D"
      by (simp add: bin)
    with True up show ?thesis by simp
  next
    case False
    then have "binade a b = - int D - 1"
      by (simp add: bin)
    then have "nat (- binade a b) = Suc D"
      by simp
    with False low show ?thesis by simp
  qed
qed

lemma binade_unique:
  assumes "0 < a" "a \<le> b" "b \<le> a * 2 ^ p" "a * 2 ^ p < 2 * b"
  shows "binade a b = - int p"
proof -
  define q where "q = nat (- binade a b)"
  from binade_unit [OF assms(1,2)] have q: "b \<le> a * 2 ^ q" "a * 2 ^ q < 2 * b"
    by (simp_all add: q_def)
  have "q = p"
  proof (rule ccontr)
    assume "q \<noteq> p"
    then consider "q < p" | "p < q" by linarith
    then show False
    proof cases
      case 1
      then have "Suc q \<le> p" by simp
      then have "(2::nat) ^ Suc q \<le> 2 ^ p"
        by (intro power_increasing) simp_all
      then have "a * 2 ^ Suc q \<le> a * 2 ^ p"
        by (intro mult_left_mono) simp_all
      moreover have "2 * b \<le> a * 2 ^ Suc q"
        using q(1) by simp
      ultimately show False
        using assms(4) by linarith
    next
      case 2
      then have "Suc p \<le> q" by simp
      then have "(2::nat) ^ Suc p \<le> 2 ^ q"
        by (intro power_increasing) simp_all
      then have "a * 2 ^ Suc p \<le> a * 2 ^ q"
        by (intro mult_left_mono) simp_all
      moreover have "2 * b \<le> a * 2 ^ Suc p"
        using assms(3) by simp
      ultimately show False
        using q(2) by linarith
    qed
  qed
  moreover have "binade a b \<le> 0"
    using assms(2) by (rule binade_le_0)
  ultimately show ?thesis
    by (simp add: q_def)
qed

lemma round_half_even_scale:
  assumes "0 < k"
  shows "round_half_even (k * a) (k * b) = round_half_even a b"
  using assms by (simp add: round_half_even_def Let_def)

text \<open>The rounded quotient depends on the quotient only (shown for a tenth).\<close>

lemma round_to_double_tenth:
  assumes "0 < k"
  shows "round_to_double k (10 * k) = round_to_double 1 10"
proof -
  have "binade k (10 * k) = - int 4"
    using assms by (intro binade_unique) simp_all
  moreover have "binade 1 10 = - int 4"
    by (intro binade_unique) simp_all
  ultimately show ?thesis
    using assms round_half_even_scale [OF assms, of "2 ^ 56" 10]
    by (simp add: round_to_double_def Let_def mult.commute)
qed

lemma threshold_exact:
  assumes "0 < n" "n \<le> 2 ^ 49" "k \<le> n"
  shows "true_div (int k) (int n) > MISMATCH_THRESHOLD \<longleftrightarrow> real k / real n > 1 / 10"
proof -
  let ?f = "float_val (round_to_double k n)"
  have f: "true_div (int k) (int n) = ?f"
    using assms(1) by (rule true_div_nat)
  have "\<bar>?f - real k / real n\<bar> \<le> 1 / 2 ^ 53"
    using float_div_bounds [OF assms(1,3)] by blast
  moreover have "(1::real) / 2 ^ 53 = 1 / 9007199254740992"
    by simp
  ultimately have err: "\<bar>?f - real k / real n\<bar> \<le> 1 / 9007199254740992"
    by (simp only:)
  have rn: "1 / 5629499534213120 \<le> 1 / (10 * real n)"
  proof -
    have "n \<le> 562949953421312"
      using assms(2) by simp
    then have "real n \<le> real 562949953421312"
      by (simp only: of_nat_le_iff)
    then have "10 * real n \<le> 5629499534213120"
      by simp
    then show ?thesis
      using assms(1) by (intro divide_left_mono) simp_all
  qed
  have T: "MISMATCH_THRESHOLD = 3602879701896397 / 36028797018963968"
    by (rule MISMATCH_THRESHOLD_value)
  have k10: "(10 * real k) / (10 * real n) = real k / real n"
    by simp
  consider "n < 10 * k" | "10 * k < n" | "n = 10 * k" by linarith
  then show ?thesis
  proof cases
    case 1
    then have "real n + 1 \<le> 10 * real k"
      by (metis nat_less_real_le of_nat_mult of_nat_numeral)
    then have "(real n + 1) / (10 * real n) \<le> (10 * real k) / (10 * real n)"
      by (intro divide_right_mono) simp_all
    moreover have "(real n + 1) / (10 * real n) = 1 / 10 + 1 / (10 * real n)"
      using assms(1) by (simp add: add_divide_distrib)
    ultimately have "1 / 10 + 1 / (10 * real n) \<le> real k / real n"
      using k10 by linarith
    with rn err have "MISMATCH_THRESHOLD < ?f" "1 / 10 < real k / real n"
      unfolding T by linarith+
    then show ?thesis
      by (simp only: f)
  next
    case 2
    then have "10 * real k + 1 \<le> real n"
      by (metis nat_less_real_le of_nat_mult of_nat_numeral)
    then have "(10 * real k) / (10 * real n) \<le> (real n - 1) / (10 * real n)"
      by (intro divide_right_mono) simp_all
    moreover have "(real n - 1) / (10 * real n) = 1 / 10 - 1 / (10 * real n)"
      using assms(1) by (simp add: diff_divide_distrib)
    ultimately have "real k / real n \<le> 1 / 10 - 1 / (10 * real n)"
      using k10 by linarith
    with rn err have "\<not> MISMATCH_THRESHOLD < ?f" "\<not> 1 / 10 < real k / real n"
      unfolding T by linarith+
    then show ?thesis
      by (simp only: f)
  next
    case 3
    with assms(1) have k: "0 < k" by simp
    have "?f = MISMATCH_THRESHOLD"
      using round_to_double_tenth [OF k] 3 by (simp add: MISMATCH_THRESHOLD_def)
    moreover from 3 have "real k / real n = 1 / 10"
      using k by simp
    ultimately show ?thesis
      by (simp add: f)
  qed
qed


section \<open>Basic facts\<close>

lemma mask_sum_le: "mask_sum m \<le> length m"
  by (simp add: mask_sum_def)

lemma mask_sum_all_False: "mask_sum (map (\<lambda>i. False) xs) = 0"
  by (simp add: mask_sum_def)

lemma length_hash_rows: "length (hash_rows H df) = height df"
  by (simp add: hash_rows_def)

lemma length_any_horizontal: "length (any_horizontal n es) = n"
  by (simp add: any_horizontal_def)

lemma height_append: "height (a @ b) = (if a = [] then height b else height a)"
  by (cases a) (simp_all add: height_def)

lemma shape_eq_iff: "shape a = shape b \<longleftrightarrow> height a = height b \<and> width a = width b"
  by (simp add: shape_def)

lemma is_diff_spec: "is_diff N a b = spec_cell_mismatch N a b"
  by (cases a; cases b)
    (simp_all add: is_diff_def spec_cell_mismatch_def is_null_def is_not_null_def ne_def fill_null_def)

lemma is_diff_str_ne: "is_diff str_ne a b = (a \<noteq> b)"
  by (cases a; cases b)
    (simp_all add: is_diff_def is_null_def is_not_null_def ne_def fill_null_def str_ne_def)

subsection \<open>Which exceptions can be raised where\<close>

lemma eval_exprs_error: "eval_exprs N combined cs = Inl e \<Longrightarrow> e = ColumnNotFoundError"
  by (induction cs arbitrary: e) (auto split: option.splits sum.splits)

lemma fieldwise_mask_error:
  "fieldwise_mask N df1 df2 = Inl e \<Longrightarrow> e = DuplicateError \<or> e = ColumnNotFoundError"
  by (auto simp: fieldwise_mask_def concat_horizontal_def
      split: sum.splits if_splits dest: eval_exprs_error)

lemma mismatch_mask_error:
  "mismatch_mask H N uh df1 df2 = Inl e \<Longrightarrow> e = DuplicateError \<or> e = ColumnNotFoundError"
  by (auto simp: mismatch_mask_def split: if_splits dest: fieldwise_mask_error)

lemma generate_differences_df_error:
  "generate_differences_df R df1 df2 m = Inl e \<Longrightarrow> e = DuplicateError \<or> e = ShapeError"
  by (auto simp: generate_differences_df_def with_row_index_def filter_rows_def broadcast_mask_def
      unpivot_def Let_def split: sum.splits if_splits)

lemma compare_data_no_zero_division:
  "height df1 \<noteq> 0 \<Longrightarrow> compare_data H N R uh df1 df2 s1 s2 \<noteq> Inl ZeroDivisionError"
  by (auto simp: compare_data_def Let_def split: sum.splits if_splits
      dest: mismatch_mask_error generate_differences_df_error)

text \<open>Without the guard of \<open>compare\<close> the division does fail.\<close>

lemma compare_data_zero_rows:
  "height df1 = 0 \<Longrightarrow> compare_data H N R True df1 df2 s1 s2 = Inl ZeroDivisionError"
  by (simp add: compare_data_def mismatch_mask_def Let_def)

subsection \<open>The mask has one entry per row\<close>

lemma length_mismatch_mask:
  assumes "mismatch_mask H N uh df1 df2 = Inr m" "df1 \<noteq> []"
  shows "length m \<le> height df1"
  using assms
  by (auto simp: mismatch_mask_def fieldwise_mask_def concat_horizontal_def length_hash_rows
      length_any_horizontal height_append split: if_splits sum.splits)

lemma mask_sum_le_height:
  assumes "mismatch_mask H N uh df1 df2 = Inr m" "height df1 \<noteq> 0"
  shows "mask_sum m \<le> height df1"
proof -
  from assms(2) have "df1 \<noteq> []" by (auto simp: height_def)
  from length_mismatch_mask [OF assms(1) this] mask_sum_le [of m] show ?thesis by simp
qed

section \<open>The field-wise mask\<close>

lemma get_column_member:
  "distinct (columns df) \<Longrightarrow> c \<in> set df \<Longrightarrow> get_column df (cname c) = Some c"
  by (induction df) (auto simp: get_column_def columns_def)

lemma zip_same_names:
  "columns df1 = columns df2 \<Longrightarrow> (c1, c2) \<in> set (zip df1 df2) \<Longrightarrow> cname c1 = cname c2"
  unfolding columns_def
  by (metis in_set_zip fst_conv snd_conv nth_map length_map)

lemma eval_exprs_pairs:
  assumes "\<forall>p \<in> set ps.
             get_column combined (cname (fst p)) = Some (fst p) \<and>
             (\<exists>c2'. get_column combined (cname (fst p) @ ''_v2'') = Some c2' \<and>
                    cvals c2' = cvals (snd p))"
  shows "eval_exprs N combined (map (\<lambda>p. cname (fst p)) ps) =
           Inr (map (\<lambda>p. map2 (is_diff N) (cvals (fst p)) (cvals (snd p))) ps)"
  using assms
  by (induction ps) auto

text \<open>
  When no name is used twice in the combined frame, every expression finds its two
  columns: the one of the first frame and, under the suffixed name, the one of the second
  frame at the same position.
\<close>

lemma eval_exprs_combined:
  assumes cols: "columns df1 = columns df2"
    and dist: "distinct (columns (df1 @ rename_v2 df2))"
  shows "eval_exprs N (df1 @ rename_v2 df2) (columns df1) =
           Inr (map (\<lambda>p. map2 (is_diff N) (cvals (fst p)) (cvals (snd p))) (zip df1 df2))"
proof -
  have len: "length df1 = length df2"
    using cols by (metis columns_def length_map)
  have "eval_exprs N (df1 @ rename_v2 df2) (map (\<lambda>p. cname (fst p)) (zip df1 df2)) =
           Inr (map (\<lambda>p. map2 (is_diff N) (cvals (fst p)) (cvals (snd p))) (zip df1 df2))"
  proof (rule eval_exprs_pairs, rule ballI)
    fix p
    assume p_in: "p \<in> set (zip df1 df2)"
    obtain c1 c2 where p: "p = (c1, c2)"
      by (cases p)
    from p_in p have in_zip: "(c1, c2) \<in> set (zip df1 df2)"
      by simp
    from in_zip have m1: "c1 \<in> set df1" and m2: "c2 \<in> set df2"
      by (auto dest: set_zip_leftD set_zip_rightD)
    have same: "cname c1 = cname c2"
      using cols in_zip by (rule zip_same_names)
    let ?c2' = "c2\<lparr>cname := cname c2 @ ''_v2''\<rparr>"
    have "?c2' \<in> set (df1 @ rename_v2 df2)"
      using m2 by (auto simp: rename_v2_def)
    from get_column_member [OF dist this]
    have "get_column (df1 @ rename_v2 df2) (cname c1 @ ''_v2'') = Some ?c2'"
      using same by simp
    moreover have "get_column (df1 @ rename_v2 df2) (cname c1) = Some c1"
      using get_column_member [OF dist, of c1] m1 by simp
    ultimately show "get_column (df1 @ rename_v2 df2) (cname (fst p)) = Some (fst p) \<and>
             (\<exists>c2'. get_column (df1 @ rename_v2 df2) (cname (fst p) @ ''_v2'') = Some c2' \<and>
                    cvals c2' = cvals (snd p))"
      using p by simp
  qed
  moreover have "map (\<lambda>p. cname (fst p)) (zip df1 df2) = columns df1"
    unfolding columns_def using len by (intro nth_equalityI) simp_all
  ultimately show ?thesis by simp
qed

lemma fieldwise_mask_eq:
  assumes wf1: "wf_df df1" and wf2: "wf_df df2"
    and cols: "columns df1 = columns df2"
    and hgt: "height df1 = height df2"
    and dist: "distinct (columns (df1 @ rename_v2 df2))"
  shows "fieldwise_mask N df1 df2 =
           Inr (map (\<lambda>i. \<exists>j<width df1. is_diff N (cell df1 i j) (cell df2 i j)) [0..<height df1])"
proof -
  have len: "length df1 = length df2"
    using cols by (metis columns_def length_map)
  have h: "height (df1 @ rename_v2 df2) = height df1"
    using len hgt by (cases df1; cases df2) (simp_all add: height_def rename_v2_def)
  have l1: "\<And>j. j < length df1 \<Longrightarrow> length (cvals (df1 ! j)) = height df1"
    using wf1 by (simp add: wf_df_def list_all_length)
  have l2: "\<And>j. j < length df1 \<Longrightarrow> length (cvals (df2 ! j)) = height df1"
    using wf2 len hgt by (simp add: wf_df_def list_all_length)
  have "any_horizontal (height df1)
          (map (\<lambda>p. map2 (is_diff N) (cvals (fst p)) (cvals (snd p))) (zip df1 df2)) =
        map (\<lambda>i. \<exists>j<width df1. is_diff N (cell df1 i j) (cell df2 i j)) [0..<height df1]"
    unfolding any_horizontal_def
  proof (rule map_cong [OF refl])
    fix i assume "i \<in> set [0..<height df1]"
    then have i: "i < height df1" by simp
    show "list_ex (\<lambda>e. e ! i) (map (\<lambda>p. map2 (is_diff N) (cvals (fst p)) (cvals (snd p))) (zip df1 df2)) =
          (\<exists>j<width df1. is_diff N (cell df1 i j) (cell df2 i j))"
      using i len l1 l2
      by (auto simp: list_ex_length width_def cell_def)
  qed
  then show ?thesis
    using eval_exprs_combined [OF cols dist] dist
    by (simp add: fieldwise_mask_def concat_horizontal_def h)
qed



section \<open>The hash mask\<close>

lemma hash_mask_eq:
  "height df1 = height df2 \<Longrightarrow>
   mismatch_mask H N True df1 df2 =
     Inr (map (\<lambda>i. H (row_at df1 i) \<noteq> H (row_at df2 i)) [0..<height df1])"
  by (simp add: mismatch_mask_def hash_rows_def zip_map_map zip_same_conv_map)

lemma row_at_eq:
  assumes "width df1 = width df2"
    and "\<forall>j<width df1. cell df1 i j = cell df2 i j"
  shows "row_at df1 i = row_at df2 i"
  using assms unfolding row_at_def width_def cell_def
  by (intro nth_equalityI) simp_all


section \<open>The cascade of \<open>compare\<close>\<close>

text \<open>
  C7. When the shapes differ, \<open>compare\<close> returns the shape mismatch: rate 0, no
  differences, both shapes in the details. The result is a function of the two shapes
  alone: neither the cells nor the strategy, the hash or the rendering enter it.
\<close>

theorem compare_shape_mismatch:
  assumes "shape df1 \<noteq> shape df2"
  shows "compare H N R use_hash df1 df2 =
           Inr (\<lparr>status = ''Shape mismatch'', match_rate = 0,
                 details = Shapes (shape df1) (shape df2),
                 shape1 = shape df1, shape2 = shape df2\<rparr>, None)"
  using assms by (simp add: compare_def CompareResult_def Let_def)

theorem compare_shape_mismatch_witness:
  "shape sheet_v1 \<noteq> shape sheet_short \<and>
   compare (\<lambda>r. r) str_ne (\<lambda>s. s) False sheet_v1 sheet_short =
     Inr (\<lparr>status = ''Shape mismatch'', match_rate = 0, details = Shapes (2, 2) (1, 2),
           shape1 = (2, 2), shape2 = (1, 2)\<rparr>, None)"
proof -
  have h: "shape sheet_v1 \<noteq> shape sheet_short"
    by (simp add: sheet_defs frame_defs)
  have s: "shape sheet_v1 = (2, 2)" "shape sheet_short = (1, 2)"
    by (simp_all add: sheet_defs frame_defs)
  from compare_shape_mismatch [OF h, of "\<lambda>r. r" str_ne "\<lambda>s. s" False] h show ?thesis
    by (simp add: s)
qed

text \<open>
  C6. Two frames of equal shape whose column names are the same set in a different order
  are a column mismatch: rate 0, no differences. The decision compares the two name
  sequences; the details carry the symmetric difference of the two name sets, which is
  empty here.
\<close>

theorem compare_column_order:
  assumes "shape df1 = shape df2"
    and "set (columns df1) = set (columns df2)"
    and "columns df1 \<noteq> columns df2"
  shows "compare H N R use_hash df1 df2 =
           Inr (\<lparr>status = ''Column names mismatch'', match_rate = 0,
                 details = DiffCols (sym_diff (set (columns df1)) (set (columns df2))),
                 shape1 = shape df1, shape2 = shape df2\<rparr>, None) \<and>
         sym_diff (set (columns df1)) (set (columns df2)) = {}"
  using assms by (simp add: compare_def Let_def CompareResult_def)

theorem compare_column_order_witness:
  "shape sheet_v1 = shape sheet_swapped \<and>
   set (columns sheet_v1) = set (columns sheet_swapped) \<and>
   columns sheet_v1 \<noteq> columns sheet_swapped \<and>
   compare (\<lambda>r. r) str_ne (\<lambda>s. s) True sheet_v1 sheet_swapped =
     Inr (\<lparr>status = ''Column names mismatch'', match_rate = 0, details = DiffCols {},
           shape1 = (2, 2), shape2 = (2, 2)\<rparr>, None)"
proof -
  have h: "shape sheet_v1 = shape sheet_swapped"
    "set (columns sheet_v1) = set (columns sheet_swapped)"
    "columns sheet_v1 \<noteq> columns sheet_swapped"
    by (auto simp: sheet_defs frame_defs)
  have s: "shape sheet_v1 = (2, 2)" "shape sheet_swapped = (2, 2)"
    by (simp_all add: sheet_defs frame_defs)
  from compare_column_order [OF h, of "\<lambda>r. r" str_ne "\<lambda>s. s" True] h show ?thesis
    by (simp add: s)
qed

text \<open>
  The check is the ordered one in general: whenever the name sequences differ, the
  result is the column mismatch with the symmetric difference of the name sets.
\<close>

lemma compare_column_mismatch:
  assumes "shape df1 = shape df2" and "columns df1 \<noteq> columns df2"
  shows "compare H N R use_hash df1 df2 =
           Inr (\<lparr>status = ''Column names mismatch'', match_rate = 0,
                 details = DiffCols (sym_diff (set (columns df1)) (set (columns df2))),
                 shape1 = shape df1, shape2 = shape df2\<rparr>, None)"
  using assms by (simp add: compare_def Let_def CompareResult_def)

text \<open>
  C8. Two frames of equal shape, names and types without rows are a perfect match with
  rate 1 and no differences; the result involves neither strategy, hash nor rendering.
\<close>

theorem compare_empty_match:
  assumes "shape df1 = shape df2" and "columns df1 = columns df2"
    and "dtypes df1 = dtypes df2" and "height df1 = 0"
  shows "compare H N R use_hash df1 df2 =
           Inr (\<lparr>status = ''Perfect match'', match_rate = 1, details = FilesEmpty,
                 shape1 = shape df1, shape2 = shape df2\<rparr>, None)"
  using assms by (simp add: compare_def Let_def CompareResult_def shape_def)

theorem compare_empty_match_witness:
  "shape sheet_headers = shape sheet_headers \<and> columns sheet_headers = columns sheet_headers \<and>
   dtypes sheet_headers = dtypes sheet_headers \<and> height sheet_headers = 0 \<and>
   compare (\<lambda>r. r) str_ne (\<lambda>s. s) False sheet_headers sheet_headers =
     Inr (\<lparr>status = ''Perfect match'', match_rate = 1, details = FilesEmpty,
           shape1 = (0, 2), shape2 = (0, 2)\<rparr>, None)"
proof -
  have h: "height sheet_headers = 0"
    by (simp add: sheet_defs frame_defs)
  have s: "shape sheet_headers = (0, 2)"
    by (simp add: sheet_defs frame_defs)
  from compare_empty_match [OF refl refl refl h, of "\<lambda>r. r" str_ne "\<lambda>s. s" False] h show ?thesis
    by (simp add: s)
qed

text \<open>
  C10. \<open>compare\<close> never fails with a division by zero: the division of
  \<open>compare_data\<close> is reached only after the check for empty frames, with at least one
  row. (Called on its own with frames without rows, \<open>compare_data\<close> does fail; see
  \<open>compare_data_zero_rows\<close>.)
\<close>

theorem compare_no_zero_division:
  "compare H N R use_hash df1 df2 \<noteq> Inl ZeroDivisionError"
  using compare_data_no_zero_division [of df1 H N R use_hash df2 "shape df1" "shape df2"]
  by (auto simp: compare_def Let_def shape_def split: if_splits)


section \<open>The outcome of the row comparison\<close>

lemma compare_data_perfect:
  "mismatch_mask H N uh df1 df2 = Inr m \<Longrightarrow> mask_sum m = 0 \<Longrightarrow> height df1 \<noteq> 0 \<Longrightarrow>
   compare_data H N R uh df1 df2 s1 s2 = Inr (CompareResult ''Perfect match'' 1 NoDetails s1 s2, None)"
  by (simp add: compare_data_def Let_def)

lemma compare_data_high:
  assumes h: "height df1 \<noteq> 0"
    and m: "mismatch_mask H N uh df1 df2 = Inr m"
    and t: "true_div (int (mask_sum m)) (int (height df1)) > MISMATCH_THRESHOLD"
  shows "compare_data H N R uh df1 df2 s1 s2 =
           Inr (CompareResult ''Data mismatch >10.0%''
                  (true_div (int (height df1) - int (mask_sum m)) (int (height df1)))
                  (RowsDiffer (mask_sum m)) s1 s2, None) \<and>
         true_div (int (height df1) - int (mask_sum m)) (int (height df1)) < 1"
proof -
  from h have pos: "0 < height df1" by simp
  have le: "mask_sum m \<le> height df1"
    using m h by (rule mask_sum_le_height)
  from threshold_exceeded_imp [OF pos le t] have big: "height df1 < 20 * mask_sum m" .
  then have "mask_sum m \<noteq> 0" by auto
  with h m t have "compare_data H N R uh df1 df2 s1 s2 =
           Inr (CompareResult ''Data mismatch >10.0%''
                  (true_div (int (height df1) - int (mask_sum m)) (int (height df1)))
                  (RowsDiffer (mask_sum m)) s1 s2, None)"
    by (simp add: compare_data_def Let_def)
  with rate_below_one [OF pos le big] show ?thesis
    by simp
qed

text \<open>
  C4. When the row comparison has produced its mask and the ratio of flagged rows to rows
  exceeds the threshold (the test of the code: the float quotient against the float
  \<open>0.10\<close>), \<open>compare\<close> returns the high-mismatch result with the computed rate, which is
  below 1, and without differences. Nothing is assumed about the generation of the
  differences: it does not take part in the result.
\<close>

theorem compare_high_mismatch:
  assumes "shape df1 = shape df2" and "columns df1 = columns df2" and "dtypes df1 = dtypes df2"
    and "height df1 \<noteq> 0"
    and "mismatch_mask H N use_hash df1 df2 = Inr m"
    and "true_div (int (mask_sum m)) (int (height df1)) > MISMATCH_THRESHOLD"
  shows "compare H N R use_hash df1 df2 =
           Inr (\<lparr>status = ''Data mismatch >10.0%'',
                 match_rate = true_div (int (height df1) - int (mask_sum m)) (int (height df1)),
                 details = RowsDiffer (mask_sum m),
                 shape1 = shape df1, shape2 = shape df2\<rparr>, None) \<and>
         true_div (int (height df1) - int (mask_sum m)) (int (height df1)) < 1"
proof -
  from assms(1-4) have "compare H N R use_hash df1 df2 =
      compare_data H N R use_hash df1 df2 (shape df1) (shape df2)"
    by (simp add: compare_def Let_def shape_def)
  with compare_data_high [OF assms(4,5,6), of R "shape df1" "shape df2"] show ?thesis
    by (simp add: CompareResult_def)
qed

theorem compare_high_mismatch_witness:
  "shape sheet_v1 = shape sheet_v2 \<and> columns sheet_v1 = columns sheet_v2 \<and>
   dtypes sheet_v1 = dtypes sheet_v2 \<and> height sheet_v1 \<noteq> 0 \<and>
   mismatch_mask (\<lambda>r. r) str_ne False sheet_v1 sheet_v2 = Inr [False, True] \<and>
   true_div (int (mask_sum [False, True])) (int (height sheet_v1)) > MISMATCH_THRESHOLD \<and>
   compare (\<lambda>r. r) str_ne (\<lambda>s. s) False sheet_v1 sheet_v2 =
     Inr (\<lparr>status = ''Data mismatch >10.0%'', match_rate = 1 / 2, details = RowsDiffer 1,
           shape1 = (2, 2), shape2 = (2, 2)\<rparr>, None)"
proof -
  have h: "shape sheet_v1 = shape sheet_v2" "columns sheet_v1 = columns sheet_v2"
    "dtypes sheet_v1 = dtypes sheet_v2" "height sheet_v1 \<noteq> 0"
    by (simp_all add: sheet_defs frame_defs)
  have m: "mismatch_mask (\<lambda>r. r) str_ne False sheet_v1 sheet_v2 = Inr [False, True]"
    by (simp add: mismatch_mask_def fieldwise_mask_def concat_horizontal_def rename_v2_def
        get_column_def any_horizontal_def is_diff_str_ne sheet_defs frame_defs upt_rec)
  have v: "height sheet_v1 = 2" "mask_sum [False, True] = 1" "shape sheet_v1 = (2, 2)"
    "shape sheet_v2 = (2, 2)"
    by (simp_all add: sheet_defs frame_defs mask_sum_def)
  have t: "true_div (int (mask_sum [False, True])) (int (height sheet_v1)) > MISMATCH_THRESHOLD"
    by (simp add: v MISMATCH_THRESHOLD_value true_div_def float_defs)
  have r: "true_div 1 2 = 1 / 2"
    by (simp add: true_div_def float_defs)
  from compare_high_mismatch [OF h m t, of "\<lambda>s. s"] h m t show ?thesis
    by (simp add: v r)
qed

text \<open>
  The same with the ratio taken exactly, for frames of at most \<open>2 ^ 49\<close> rows: there the
  test on floats and the comparison of the exact ratio with a tenth agree.
\<close>

lemma compare_high_mismatch_exact:
  assumes "shape df1 = shape df2" and "columns df1 = columns df2" and "dtypes df1 = dtypes df2"
    and "height df1 \<noteq> 0" and "height df1 \<le> 2 ^ 49"
    and "mismatch_mask H N use_hash df1 df2 = Inr m"
    and "real (mask_sum m) / real (height df1) > 1 / 10"
  shows "compare H N R use_hash df1 df2 =
           Inr (\<lparr>status = ''Data mismatch >10.0%'',
                 match_rate = true_div (int (height df1) - int (mask_sum m)) (int (height df1)),
                 details = RowsDiffer (mask_sum m),
                 shape1 = shape df1, shape2 = shape df2\<rparr>, None) \<and>
         true_div (int (height df1) - int (mask_sum m)) (int (height df1)) < 1"
proof -
  from assms(4) have pos: "0 < height df1" by simp
  have le: "mask_sum m \<le> height df1"
    using assms(6,4) by (rule mask_sum_le_height)
  from threshold_exact [OF pos assms(5) le] assms(7)
  have t: "true_div (int (mask_sum m)) (int (height df1)) > MISMATCH_THRESHOLD"
    by simp
  from assms(1-4) have "compare H N R use_hash df1 df2 =
      compare_data H N R use_hash df1 df2 (shape df1) (shape df2)"
    by (simp add: compare_def Let_def shape_def)
  with compare_data_high [OF assms(4,6) t, of R "shape df1" "shape df2"] show ?thesis
    by (simp add: CompareResult_def)
qed

section \<open>The match rate\<close>

lemma trio_mask_eval:
  "mismatch_mask (\<lambda>r. r) str_ne False trio_v1 trio_v2 = Inr [False, True, False]"
  by (simp add: mismatch_mask_def fieldwise_mask_def concat_horizontal_def rename_v2_def
      get_column_def any_horizontal_def is_diff_str_ne sheet_defs frame_defs upt_rec)

lemma trio_compare_eval:
  "compare (\<lambda>r. r) str_ne (\<lambda>s. s) False trio_v1 trio_v2 =
     Inr (\<lparr>status = ''Data mismatch >10.0%'',
           match_rate = 6004799503160661 / 9007199254740992,
           details = RowsDiffer 1, shape1 = (3, 1), shape2 = (3, 1)\<rparr>, None)"
proof -
  have s: "shape trio_v1 = (3, 1)" "shape trio_v2 = (3, 1)"
    "columns trio_v1 = columns trio_v2" "dtypes trio_v1 = dtypes trio_v2"
    "height trio_v1 = 3" "mask_sum [False, True, False] = 1"
    by (simp_all add: sheet_defs mask_sum_def frame_defs)
  have f: "true_div 2 3 = 6004799503160661 / 9007199254740992"
    "true_div 1 3 = 6004799503160661 / 18014398509481984"
    by (simp_all add: true_div_def float_defs)
  show ?thesis
    by (simp add: compare_def compare_data_def Let_def s trio_mask_eval f
        MISMATCH_THRESHOLD_value CompareResult_def)
qed

text \<open>
  C5 as it is stated does not hold: with three rows of which one is flagged, the rate
  that \<open>compare\<close> returns is the float \<^verbatim>\<open>2 / 3\<close>, \<open>0.6666666666666666\<close>, and the float
  expression \<^verbatim>\<open>1.0 - 1 / 3\<close> is \<open>0.6666666666666667\<close>.
\<close>

theorem match_rate_formula_counterexample:
  "compare (\<lambda>r. r) str_ne (\<lambda>s. s) False trio_v1 trio_v2 =
     Inr (\<lparr>status = ''Data mismatch >10.0%'',
           match_rate = 6004799503160661 / 9007199254740992,
           details = RowsDiffer 1, shape1 = (3, 1), shape2 = (3, 1)\<rparr>, None) \<and>
   mismatch_mask (\<lambda>r. r) str_ne False trio_v1 trio_v2 = Inr [False, True, False] \<and>
   spec_match_rate (mask_sum [False, True, False]) (height trio_v1) =
     6004799503160662 / 9007199254740992 \<and>
   (6004799503160661 / 9007199254740992 :: real) \<noteq>
     spec_match_rate (mask_sum [False, True, False]) (height trio_v1)"
proof -
  have s: "height trio_v1 = 3" "mask_sum [False, True, False] = 1"
    by (simp_all add: sheet_defs mask_sum_def frame_defs)
  have "spec_match_rate 1 3 = 6004799503160662 / 9007199254740992"
    by (simp add: spec_match_rate_def one_minus_def float_defs)
  with trio_compare_eval trio_mask_eval show ?thesis
    by (simp add: s)
qed

text \<open>
  C5, amended. The rate of every result that \<open>compare\<close> returns lies between 0 and 1.
  When the row comparison runs (equal shapes, names and types, at least one row), a
  returned result comes with a mask, and its rate is the float quotient
  \<^verbatim>\<open>(rows - mismatch_count) / rows\<close>: the binary64 value nearest to the exact
  \<open>1 - mismatch_count/rows\<close>, from which it differs by at most \<open>2 ^ -53\<close>.
\<close>

theorem compare_match_rate:
  assumes "compare H N R use_hash df1 df2 = Inr (res, ds)"
  shows "0 \<le> match_rate res \<and> match_rate res \<le> 1 \<and>
         (shape df1 = shape df2 \<and> columns df1 = columns df2 \<and> dtypes df1 = dtypes df2 \<and>
          height df1 \<noteq> 0 \<longrightarrow>
            (\<exists>m. mismatch_mask H N use_hash df1 df2 = Inr m \<and>
                 match_rate res =
                   true_div (int (height df1) - int (mask_sum m)) (int (height df1)) \<and>
                 \<bar>match_rate res - (1 - real (mask_sum m) / real (height df1))\<bar> \<le> 1 / 2 ^ 53))"
proof (cases "shape df1 = shape df2 \<and> columns df1 = columns df2 \<and> dtypes df1 = dtypes df2 \<and>
          height df1 \<noteq> 0")
  case False
  with assms show ?thesis
    by (auto simp: compare_def Let_def CompareResult_def shape_def split: if_splits)
next
  case True
  with assms have cd: "compare_data H N R use_hash df1 df2 (shape df1) (shape df2) = Inr (res, ds)"
    by (simp add: compare_def Let_def shape_def)
  then obtain m where m: "mismatch_mask H N use_hash df1 df2 = Inr m"
    by (auto simp: compare_data_def split: sum.splits)
  from True have h: "height df1 \<noteq> 0" by simp
  then have pos: "0 < height df1" by simp
  from mask_sum_le_height [OF m h] have le: "mask_sum m \<le> height df1" .
  let ?q = "true_div (int (height df1) - int (mask_sum m)) (int (height df1))"
  have q: "?q = float_val (round_to_double (height df1 - mask_sum m) (height df1))"
    using pos le by (rule true_div_diff)
  have one: "mask_sum m = 0 \<Longrightarrow> ?q = 1"
    using pos by (simp add: true_div_nat round_to_double_same)
  have rate: "match_rate res = ?q"
    using cd m h one
    by (auto simp: compare_data_def Let_def CompareResult_def split: if_splits sum.splits)
  have "height df1 - mask_sum m \<le> height df1"
    by simp
  from float_div_bounds [OF pos this]
  have b: "0 \<le> ?q" "?q \<le> 1"
    "\<bar>?q - real (height df1 - mask_sum m) / real (height df1)\<bar> \<le> 1 / 2 ^ 53"
    by (simp_all only: q)
  have "real (height df1 - mask_sum m) / real (height df1) =
        1 - real (mask_sum m) / real (height df1)"
    using h le by (simp add: of_nat_diff field_simps)
  with b(3) have "\<bar>?q - (1 - real (mask_sum m) / real (height df1))\<bar> \<le> 1 / 2 ^ 53"
    by (simp only:)
  with rate b(1,2) m show ?thesis
    by (simp only:) blast
qed

theorem compare_match_rate_witness:
  "compare (\<lambda>r. r) str_ne (\<lambda>s. s) False trio_v1 trio_v2 =
     Inr (\<lparr>status = ''Data mismatch >10.0%'',
           match_rate = 6004799503160661 / 9007199254740992,
           details = RowsDiffer 1, shape1 = (3, 1), shape2 = (3, 1)\<rparr>, None) \<and>
   shape trio_v1 = shape trio_v2 \<and> columns trio_v1 = columns trio_v2 \<and>
   dtypes trio_v1 = dtypes trio_v2 \<and> height trio_v1 \<noteq> 0 \<and>
   (\<exists>m. mismatch_mask (\<lambda>r. r) str_ne False trio_v1 trio_v2 = Inr m \<and>
        (6004799503160661 / 9007199254740992 :: real) =
          true_div (int (height trio_v1) - int (mask_sum m)) (int (height trio_v1)) \<and>
        \<bar>6004799503160661 / 9007199254740992 - (1 - real (mask_sum m) / real (height trio_v1))\<bar>
          \<le> 1 / 2 ^ 53)"
proof -
  have h: "shape trio_v1 = shape trio_v2" "columns trio_v1 = columns trio_v2"
    "dtypes trio_v1 = dtypes trio_v2" "height trio_v1 \<noteq> 0"
    by (simp_all add: sheet_defs frame_defs)
  from compare_match_rate [OF trio_compare_eval] h trio_compare_eval show ?thesis
    by simp
qed

section \<open>Identical data under both strategies\<close>

text \<open>
  Two well-formed frames of equal shape, names and types without a field-wise
  difference are a perfect match: under the hash strategy when rows without a field-wise
  difference have equal hashes, and under the field-wise strategy as long as the combined
  frame can be built.
\<close>

lemma compare_perfect_match:
  assumes wf1: "wf_df df1" and wf2: "wf_df df2"
    and sh: "shape df1 = shape df2"
    and cols: "columns df1 = columns df2"
    and tys: "dtypes df1 = dtypes df2"
    and same: "\<forall>i<height df1. \<forall>j<width df1. \<not> is_diff N (cell df1 i j) (cell df2 i j)"
    and strategy: "if use_hash
        then \<forall>r1 r2. list_all2 (\<lambda>a b. \<not> is_diff N a b) r1 r2 \<longrightarrow> H r1 = H r2
        else distinct (columns (df1 @ rename_v2 df2))"
  shows "\<exists>d. compare H N R use_hash df1 df2 =
           Inr (\<lparr>status = ''Perfect match'', match_rate = 1, details = d,
                 shape1 = shape df1, shape2 = shape df2\<rparr>, None)"
proof (cases "height df1 = 0")
  case True
  then show ?thesis
    using sh cols tys by (simp add: compare_def Let_def CompareResult_def shape_def)
next
  case False
  from sh have hgt: "height df1 = height df2" and wd: "width df1 = width df2"
    by (simp_all add: shape_eq_iff)
  have "\<exists>m. mismatch_mask H N use_hash df1 df2 = Inr m \<and> mask_sum m = 0"
  proof (cases use_hash)
    case True
    with strategy have hash: "\<And>r1 r2. list_all2 (\<lambda>a b. \<not> is_diff N a b) r1 r2 \<Longrightarrow> H r1 = H r2"
      by simp
    have "H (row_at df1 i) = H (row_at df2 i)" if "i < height df1" for i
    proof (rule hash)
      show "list_all2 (\<lambda>a b. \<not> is_diff N a b) (row_at df1 i) (row_at df2 i)"
        using same that wd
        by (simp add: list_all2_conv_all_nth row_at_def width_def cell_def)
    qed
    then have "map (\<lambda>i. H (row_at df1 i) \<noteq> H (row_at df2 i)) [0..<height df1] =
          map (\<lambda>i. False) [0..<height df1]"
      by (intro map_cong) auto
    with hash_mask_eq [OF hgt, of H N]
    have "mismatch_mask H N True df1 df2 = Inr (map (\<lambda>i. False) [0..<height df1])"
      by (simp only:)
    with True show ?thesis
      by (auto simp: mask_sum_all_False)
  next
    case False
    with strategy have dist: "distinct (columns (df1 @ rename_v2 df2))" by simp
    have "map (\<lambda>i. \<exists>j<width df1. is_diff N (cell df1 i j) (cell df2 i j)) [0..<height df1] =
          map (\<lambda>i. False) [0..<height df1]"
      using same by (intro map_cong) auto
    with fieldwise_mask_eq [OF wf1 wf2 cols hgt dist, of N]
    have "fieldwise_mask N df1 df2 = Inr (map (\<lambda>i. False) [0..<height df1])"
      by (simp only:)
    with False show ?thesis
      by (auto simp: mismatch_mask_def mask_sum_all_False)
  qed
  then obtain m where m: "mismatch_mask H N use_hash df1 df2 = Inr m" "mask_sum m = 0"
    by blast
  show ?thesis
    using compare_data_perfect [OF m False] sh cols tys False
    by (simp add: compare_def Let_def CompareResult_def shape_def)
qed

text \<open>
  C1. The claim is that identical data is a perfect match under either strategy. It
  fails for the field-wise strategy on a sheet with the headers \<open>a\<close> and \<open>a_v2\<close>
  compared with itself: the second frame is renamed to \<open>a_v2\<close>, \<open>a_v2_v2\<close>, the combined
  frame would hold \<open>a_v2\<close> twice, and the concatenation raises. The hash strategy returns
  the perfect match on the same input.
\<close>

theorem compare_suffix_collision:
  "wf_df sheet_suffix \<and>
   compare H N R False sheet_suffix sheet_suffix = Inl DuplicateError \<and>
   compare H N R True sheet_suffix sheet_suffix =
     Inr (\<lparr>status = ''Perfect match'', match_rate = 1, details = NoDetails,
           shape1 = (1, 2), shape2 = (1, 2)\<rparr>, None)"
  by (simp add: compare_def compare_data_def mismatch_mask_def fieldwise_mask_def
      concat_horizontal_def rename_v2_def hash_rows_def mask_sum_def CompareResult_def
      Let_def sheet_defs frame_defs)

section \<open>The differences\<close>

subsection \<open>Filtering by the mask\<close>

lemma filter_mask_Nil [simp]: "filter_mask m [] = []" "filter_mask [] xs = []"
  by (simp_all add: filter_mask_def)

lemma filter_mask_Cons [simp]:
  "filter_mask (b # bs) (x # xs) = (if b then x # filter_mask bs xs else filter_mask bs xs)"
  by (simp add: filter_mask_def)

lemma zip_filter_mask:
  "length xs = length ys \<Longrightarrow>
   zip (filter_mask m xs) (filter_mask m ys) = filter_mask m (zip xs ys)"
proof (induction xs ys arbitrary: m rule: list_induct2)
  case Nil
  then show ?case by simp
next
  case (Cons x xs y ys)
  then show ?case by (cases m) simp_all
qed

lemma filter_mask_map: "filter_mask m (map f xs) = map f (filter_mask m xs)"
proof (induction xs arbitrary: m)
  case Nil
  then show ?case by simp
next
  case (Cons x xs)
  then show ?case by (cases m) simp_all
qed

lemma set_filter_mask:
  "set (filter_mask m xs) = {xs ! k |k. k < length xs \<and> k < length m \<and> m ! k}"
  unfolding filter_mask_def
  by (auto simp: set_zip image_iff) force

lemma distinct_filter_mask: "distinct xs \<Longrightarrow> distinct (filter_mask m xs)"
proof -
  assume d: "distinct xs"
  then have "distinct (map fst (zip xs m))"
    by (simp add: map_fst_zip_take)
  then show ?thesis unfolding filter_mask_def by (rule distinct_map_filter)
qed

lemma in_zip_filter_mask:
  assumes "length vs = h"
  shows "(i, v) \<in> set (zip (filter_mask m [0..<h]) (map f (filter_mask m vs))) \<longleftrightarrow>
         i < h \<and> i < length m \<and> m ! i \<and> v = f (vs ! i)"
proof -
  let ?zs = "zip [0..<h] (map f vs)"
  have eq: "zip (filter_mask m [0..<h]) (map f (filter_mask m vs)) = filter_mask m ?zs"
    using assms by (simp add: zip_filter_mask filter_mask_map [symmetric])
  have lz: "length ?zs = h"
    using assms by simp
  have zs: "\<And>k. k < h \<Longrightarrow> ?zs ! k = (k, f (vs ! k))"
    using assms by simp
  show ?thesis
  proof
    assume "(i, v) \<in> set (zip (filter_mask m [0..<h]) (map f (filter_mask m vs)))"
    then obtain k where "(i, v) = ?zs ! k" "k < h" "k < length m" "m ! k"
      unfolding eq set_filter_mask lz by blast
    then show "i < h \<and> i < length m \<and> m ! i \<and> v = f (vs ! i)"
      by (simp add: zs)
  next
    assume "i < h \<and> i < length m \<and> m ! i \<and> v = f (vs ! i)"
    then have "(i, v) = ?zs ! i \<and> i < length ?zs \<and> i < length m \<and> m ! i"
      using assms by simp
    then show "(i, v) \<in> set (zip (filter_mask m [0..<h]) (map f (filter_mask m vs)))"
      unfolding eq set_filter_mask by blast
  qed
qed

lemma broadcast_mask_same: "length m = n \<Longrightarrow> broadcast_mask n m = Inr m"
  by (simp add: broadcast_mask_def)

lemma broadcast_mask_length: "broadcast_mask n m = Inr b \<Longrightarrow> length b = n"
  by (auto simp: broadcast_mask_def split: if_splits)

lemma in_melt_column:
  assumes "length (cvals c) = h"
  shows "(i, n, v) \<in> set (map (\<lambda>(i, v). (i, cname c, v))
           (zip (filter_mask m [0..<h]) (map (map_option R) (filter_mask m (cvals c))))) \<longleftrightarrow>
         n = cname c \<and> i < h \<and> i < length m \<and> m ! i \<and> v = map_option R (cvals c ! i)"
proof -
  let ?S = "set (zip (filter_mask m [0..<h]) (map (map_option R) (filter_mask m (cvals c))))"
  have "(i, n, v) \<in> (\<lambda>(i, v). (i, cname c, v)) ` ?S \<longleftrightarrow> n = cname c \<and> (i, v) \<in> ?S"
    by force
  then show ?thesis
    by (simp add: in_zip_filter_mask [OF assms])
qed

lemma in_melted:
  assumes "wf_df df"
  shows "(i, n, v) \<in> set (melted R m df) \<longleftrightarrow>
         (\<exists>c \<in> set df. n = cname c \<and> i < height df \<and> i < length m \<and> m ! i \<and>
            v = map_option R (cvals c ! i))"
proof -
  have len: "\<And>c. c \<in> set df \<Longrightarrow> length (cvals c) = height df"
    using assms by (simp add: wf_df_def list_all_iff)
  have "(i, n, v) \<in> set (melted R m df) \<longleftrightarrow>
        (\<exists>c \<in> set df. (i, n, v) \<in> set (map (\<lambda>(i, v). (i, cname c, v))
           (zip (filter_mask m [0..<height df]) (map (map_option R) (filter_mask m (cvals c))))))"
    unfolding melted_def by simp
  also have "\<dots> \<longleftrightarrow> (\<exists>c \<in> set df. n = cname c \<and> i < height df \<and> i < length m \<and> m ! i \<and>
            v = map_option R (cvals c ! i))"
    using in_melt_column [OF len] by blast
  finally show ?thesis .
qed

lemma in_join_melted_row:
  "(i, n, v1, v2) \<in> set (map (\<lambda>(i', n', v2). (i0, n0, w, v2))
       (filter (\<lambda>(i', n', v2). i' = i0 \<and> n' = n0) b)) \<longleftrightarrow>
   i = i0 \<and> n = n0 \<and> v1 = w \<and> (i0, n0, v2) \<in> set b"
  by (induction b) auto

lemma in_join_melted:
  "(i, n, v1, v2) \<in> set (join_melted a b) \<longleftrightarrow> (i, n, v1) \<in> set a \<and> (i, n, v2) \<in> set b"
proof (induction a)
  case Nil
  then show ?case by (simp add: join_melted_def)
next
  case (Cons x a)
  obtain i0 n0 w where x: "x = (i0, n0, w)" by (cases x)
  have "set (join_melted (x # a) b) =
        set (map (\<lambda>(i', n', v2). (i0, n0, w, v2)) (filter (\<lambda>(i', n', v2). i' = i0 \<and> n' = n0) b)) \<union>
        set (join_melted a b)"
    by (simp add: join_melted_def x)
  then show ?case
    using Cons.IH in_join_melted_row [of i n v1 v2 i0 n0 w b] x by auto
qed

lemma in_join_schema_row:
  "d \<in> set (map (\<lambda>(n', t). \<lparr>row_index = i, column_name = n, column_type = t,
                       value_v1 = v1, value_v2 = v2\<rparr>)
           (filter (\<lambda>(n', t). n' = n) sch)) \<longleftrightarrow>
   (\<exists>t. (n, t) \<in> set sch \<and>
      d = \<lparr>row_index = i, column_name = n, column_type = t, value_v1 = v1, value_v2 = v2\<rparr>)"
  by (induction sch) auto

lemma in_join_schema:
  "d \<in> set (join_schema ds sch) \<longleftrightarrow>
     (\<exists>i n v1 v2 t. (i, n, v1, v2) \<in> set ds \<and> (n, t) \<in> set sch \<and>
        d = \<lparr>row_index = i, column_name = n, column_type = t, value_v1 = v1, value_v2 = v2\<rparr>)"
proof (induction ds)
  case Nil
  then show ?case by (simp add: join_schema_def)
next
  case (Cons x ds)
  obtain i0 n0 w1 w2 where x: "x = (i0, n0, w1, w2)" by (cases x)
  have "set (join_schema (x # ds) sch) =
        set (map (\<lambda>(n', t). \<lparr>row_index = i0, column_name = n0, column_type = t,
                       value_v1 = w1, value_v2 = w2\<rparr>)
           (filter (\<lambda>(n', t). n' = n0) sch)) \<union>
        set (join_schema ds sch)"
    by (simp add: join_schema_def x)
  then have "d \<in> set (join_schema (x # ds) sch) \<longleftrightarrow>
     (\<exists>t. (n0, t) \<in> set sch \<and>
        d = \<lparr>row_index = i0, column_name = n0, column_type = t, value_v1 = w1, value_v2 = w2\<rparr>) \<or>
     d \<in> set (join_schema ds sch)"
    using in_join_schema_row [of d i0 n0 w1 w2 sch] by simp
  then show ?case
    unfolding Cons.IH x by auto
qed

text \<open>
  The filter on the strings keeps a cell whose values \<open>N\<close> finds different, provided that
  the cast renders values that \<open>N\<close> finds equal by the same string.
\<close>

lemma differs_rendered:
  assumes "\<forall>x y. R x \<noteq> R y \<longrightarrow> N x y"
    and "differs (i, n, map_option R a, map_option R b)"
  shows "is_diff N a b"
  using assms
  by (cases a; cases b)
    (auto simp: differs_def is_diff_def ne_def fill_null_def is_null_def is_not_null_def str_ne_def)

lemma same_position:
  assumes "distinct (columns df1)" "columns df1 = columns df2"
    and "c1 \<in> set df1" "c2 \<in> set df2" "cname c1 = cname c2"
  shows "\<exists>j<length df1. c1 = df1 ! j \<and> c2 = df2 ! j"
proof -
  have len: "length df1 = length df2"
    using assms(2) by (metis columns_def length_map)
  from assms(3) obtain j where j: "j < length df1" "df1 ! j = c1"
    by (auto simp: in_set_conv_nth)
  from assms(4) obtain k where k: "k < length df2" "df2 ! k = c2"
    by (auto simp: in_set_conv_nth)
  have "columns df1 ! j = cname c1"
    using j by (simp add: columns_def)
  moreover have "columns df1 ! k = cname c2"
    using k assms(2) by (simp add: columns_def)
  ultimately have "columns df1 ! j = columns df1 ! k"
    using assms(5) by simp
  moreover have "j < length (columns df1)" "k < length (columns df1)"
    using j k len by (simp_all add: columns_def)
  ultimately have "j = k"
    using assms(1) by (simp add: nth_eq_iff_index_eq)
  with j k show ?thesis by auto
qed

text \<open>When the generation step returns, it returns the sorted join of the two melted frames.\<close>

lemma generate_differences_df_eq:
  assumes "generate_differences_df R df1 df2 m = Inr out"
  shows "\<exists>b1 b2. broadcast_mask (height df1) m = Inr b1 \<and> broadcast_mask (height df2) m = Inr b2 \<and>
           out = sort_key diff_key
                   (join_schema (filter differs (join_melted (melted R b1 df1) (melted R b2 df2)))
                      (schema_df df1))"
proof -
  from assms obtain b1 where b1: "broadcast_mask (height df1) m = Inr b1"
    by (auto simp: generate_differences_df_def with_row_index_def filter_rows_def
        split: if_splits sum.splits)
  from assms obtain b2 where b2: "broadcast_mask (height df2) m = Inr b2"
    by (auto simp: generate_differences_df_def with_row_index_def filter_rows_def
        split: if_splits sum.splits)
  have u: "unpivot vn wn (cast_utf8 R (filter_mask b [0..<height df],
             map (\<lambda>c. c\<lparr>cvals := filter_mask b (cvals c)\<rparr>) df)) = Inr x \<Longrightarrow> x = melted R b df"
    for vn wn b x and df :: "'a dataframe"
    by (auto simp: unpivot_def cast_utf8_def melted_def o_def split: if_splits)
  from assms b1 b2 u [of _ _ b1 df1] u [of _ _ b2 df2] show ?thesis
    by (auto simp: generate_differences_df_def with_row_index_def filter_rows_def Let_def
        split: if_splits sum.splits)
qed

lemma schema_type:
  assumes "distinct (columns df)" "j < length df" "(cname (df ! j), t) \<in> set (schema_df df)"
  shows "t = ctype (df ! j)"
proof -
  from assms(3) obtain k where k: "k < length df" "cname (df ! k) = cname (df ! j)" "t = ctype (df ! k)"
    by (auto simp: schema_df_def columns_def dtypes_def in_set_zip)
  with assms(1,2) have "k = j"
    by (metis columns_def length_map nth_eq_iff_index_eq nth_map)
  with k show ?thesis by simp
qed

text \<open>
  The property of C3, under the condition that the cast is faithful to \<open>N\<close>: every
  difference of the generation step lies in a flagged row and at a cell that differs.
\<close>

lemma generate_differences_df_sound:
  assumes wf1: "wf_df df1" and wf2: "wf_df df2"
    and cols: "columns df1 = columns df2"
    and hgt: "height df1 = height df2"
    and len: "length m = height df1"
    and faithful: "\<forall>x y. R x \<noteq> R y \<longrightarrow> N x y"
    and gen: "generate_differences_df R df1 df2 m = Inr out"
    and d: "d \<in> set out"
  shows "m ! row_index d \<and> row_index d < height df1 \<and>
         (\<exists>j<width df1.
            column_name d = cname (df1 ! j) \<and>
            column_type d = ctype (df1 ! j) \<and>
            value_v1 d = map_option R (cell df1 (row_index d) j) \<and>
            value_v2 d = map_option R (cell df2 (row_index d) j) \<and>
            is_diff N (cell df1 (row_index d) j) (cell df2 (row_index d) j))"
proof -
  from generate_differences_df_eq [OF gen] len hgt
  have "out = sort_key diff_key
                (join_schema (filter differs (join_melted (melted R m df1) (melted R m df2)))
                   (schema_df df1))"
    by (auto simp: broadcast_mask_same)
  with d
  have "d \<in> set (join_schema (filter differs (join_melted (melted R m df1) (melted R m df2)))
              (schema_df df1))"
    by simp
  then obtain i n v1 v2 t where
    j: "(i, n, v1, v2) \<in> set (join_melted (melted R m df1) (melted R m df2))"
    and df: "differs (i, n, v1, v2)"
    and sc: "(n, t) \<in> set (schema_df df1)"
    and deq: "d = \<lparr>row_index = i, column_name = n, column_type = t, value_v1 = v1, value_v2 = v2\<rparr>"
    by (auto simp: in_join_schema)
  from j have m1: "(i, n, v1) \<in> set (melted R m df1)" and m2: "(i, n, v2) \<in> set (melted R m df2)"
    by (simp_all add: in_join_melted)
  from m1 obtain c1 where c1: "c1 \<in> set df1" "n = cname c1" "i < height df1" "i < length m" "m ! i"
    "v1 = map_option R (cvals c1 ! i)"
    by (auto simp: in_melted [OF wf1])
  from m2 obtain c2 where c2: "c2 \<in> set df2" "n = cname c2" "v2 = map_option R (cvals c2 ! i)"
    by (auto simp: in_melted [OF wf2])
  from wf1 have dist: "distinct (columns df1)" by (simp add: wf_df_def)
  from same_position [OF dist cols c1(1) c2(1)] c1(2) c2(2)
  obtain j where jj: "j < length df1" "c1 = df1 ! j" "c2 = df2 ! j"
    by auto
  have ty: "t = ctype (df1 ! j)"
    using schema_type [OF dist jj(1)] sc c1(2) jj(2) by simp
  have "is_diff N (cvals c1 ! i) (cvals c2 ! i)"
    using df c1(6) c2(3) differs_rendered [OF faithful] by blast
  with c1 c2 jj ty deq show ?thesis
    by (auto simp: width_def cell_def)
qed

subsection \<open>The examples\<close>

lemmas generate_defs = generate_differences_df_def with_row_index_def filter_rows_def
  broadcast_mask_def cast_utf8_def unpivot_def join_melted_def differs_def fill_null_def ne_def
  is_null_def str_ne_def schema_df_def join_schema_def diff_key_def Let_def

lemma ledger_mask_eval: "mismatch_mask (\<lambda>r. r) str_ne False ledger_v1 ledger_v2 = Inr ledger_mask"
  by (simp add: mismatch_mask_def fieldwise_mask_def concat_horizontal_def rename_v2_def
      get_column_def any_horizontal_def is_diff_str_ne sheet_defs frame_defs upt_rec)

lemma ledger_generate_eval:
  "generate_differences_df (\<lambda>s. s) ledger_v1 ledger_v2 ledger_mask = Inr ledger_diffs"
  by (simp add: generate_defs sheet_defs frame_defs upt_rec)

lemma true_div_9_10: "true_div 9 10 = 8106479329266893 / 9007199254740992"
  "true_div 1 10 = 3602879701896397 / 36028797018963968"
  by (simp_all add: true_div_def float_defs)

text \<open>The example through \<open>compare\<close>: one row in ten differs, the differences are attached.\<close>

lemma ledger_compare_eval:
  "compare (\<lambda>r. r) str_ne (\<lambda>s. s) False ledger_v1 ledger_v2 =
     Inr (\<lparr>status = ''Data mismatch'', match_rate = 8106479329266893 / 9007199254740992,
           details = RowsDiffer 1, shape1 = (10, 3), shape2 = (10, 3)\<rparr>, Some ledger_diffs)"
proof -
  have s: "shape ledger_v1 = (10, 3)" "shape ledger_v2 = (10, 3)"
    "columns ledger_v1 = columns ledger_v2" "dtypes ledger_v1 = dtypes ledger_v2"
    "height ledger_v1 = 10" "mask_sum ledger_mask = 1"
    by (simp_all add: sheet_defs mask_sum_def frame_defs)
  show ?thesis
    by (simp add: compare_def compare_data_def Let_def s ledger_mask_eval ledger_generate_eval
        true_div_9_10 MISMATCH_THRESHOLD_value CompareResult_def)
qed

lemma zeros_mask_eval:
  "mismatch_mask (\<lambda>r. r) sample_ne False zeros_v1 zeros_v2 = Inr ledger_mask"
  by (simp add: mismatch_mask_def fieldwise_mask_def concat_horizontal_def rename_v2_def
      get_column_def any_horizontal_def is_diff_def is_null_def is_not_null_def ne_def
      fill_null_def sheet_defs frame_defs upt_rec)

lemma zeros_generate_eval:
  "generate_differences_df sample_cast zeros_v1 zeros_v2 ledger_mask = Inr zeros_diffs"
  by (simp add: generate_defs sheet_defs frame_defs upt_rec)

subsection \<open>The cells that are emitted\<close>

text \<open>
  C3. The claim is that every emitted difference is a cell that differs under the
  field-wise inequality, and that no equal cell of a flagged row is emitted. The code
  decides it on the strings the cells are cast to, and the cast tells apart values that
  \<^verbatim>\<open>!=\<close> finds equal: in the example, row 3 is flagged for its name, its \<open>qty\<close> is \<open>0.0\<close> in
  one version and \<open>-0.0\<close> in the other, the row matcher finds this cell equal, and the
  cell is emitted.
\<close>

theorem equal_cell_emitted:
  "mismatch_mask (\<lambda>r. r) sample_ne False zeros_v1 zeros_v2 = Inr ledger_mask \<and>
   compare (\<lambda>r. r) sample_ne sample_cast False zeros_v1 zeros_v2 =
     Inr (\<lparr>status = ''Data mismatch'', match_rate = 8106479329266893 / 9007199254740992,
           details = RowsDiffer 1, shape1 = (10, 2), shape2 = (10, 2)\<rparr>, Some zeros_diffs) \<and>
   zeros_diffs ! 1 = \<lparr>row_index = 3, column_name = ''qty'', column_type = ''Float64'',
                       value_v1 = Some ''0.0'', value_v2 = Some ''-0.0''\<rparr> \<and>
   cname (zeros_v1 ! 0) = ''qty'' \<and>
   cell zeros_v1 3 0 = Some Zero \<and> cell zeros_v2 3 0 = Some NegZero \<and>
   sample_ne Zero NegZero = False \<and>
   is_diff sample_ne (cell zeros_v1 3 0) (cell zeros_v2 3 0) = False"
proof -
  have s: "shape zeros_v1 = (10, 2)" "shape zeros_v2 = (10, 2)"
    "columns zeros_v1 = columns zeros_v2" "dtypes zeros_v1 = dtypes zeros_v2"
    "height zeros_v1 = 10" "mask_sum ledger_mask = 1"
    by (simp_all add: sheet_defs mask_sum_def frame_defs)
  have c: "compare (\<lambda>r. r) sample_ne sample_cast False zeros_v1 zeros_v2 =
     Inr (\<lparr>status = ''Data mismatch'', match_rate = 8106479329266893 / 9007199254740992,
           details = RowsDiffer 1, shape1 = (10, 2), shape2 = (10, 2)\<rparr>, Some zeros_diffs)"
    by (simp add: compare_def compare_data_def Let_def s zeros_mask_eval zeros_generate_eval
        true_div_9_10 MISMATCH_THRESHOLD_value CompareResult_def)
  have v: "cell zeros_v1 3 0 = Some Zero" "cell zeros_v2 3 0 = Some NegZero"
    "cname (zeros_v1 ! 0) = ''qty''"
    "zeros_diffs ! 1 = \<lparr>row_index = 3, column_name = ''qty'', column_type = ''Float64'',
                       value_v1 = Some ''0.0'', value_v2 = Some ''-0.0''\<rparr>"
    by (simp_all add: sheet_defs cell_def)
  have "is_diff sample_ne (Some Zero) (Some NegZero) = False"
    by (simp add: is_diff_def is_null_def is_not_null_def ne_def fill_null_def)
  with c v zeros_mask_eval show ?thesis
    by simp
qed

text \<open>What \<open>compare\<close> attaches is what the generation step returns for the mask.\<close>

lemma length_mismatch_mask_eq:
  assumes "mismatch_mask H N uh df1 df2 = Inr m" "height df1 = height df2" "df1 \<noteq> []"
  shows "length m = height df1"
  using assms
  by (auto simp: mismatch_mask_def fieldwise_mask_def concat_horizontal_def length_hash_rows
      length_any_horizontal height_append split: if_splits sum.splits)

lemma compare_differences:
  assumes "compare H N R use_hash df1 df2 = Inr (res, Some out)"
  shows "shape df1 = shape df2 \<and> columns df1 = columns df2 \<and>
         (\<exists>m. mismatch_mask H N use_hash df1 df2 = Inr m \<and> length m = height df1 \<and>
              generate_differences_df R df1 df2 m = Inr out)"
proof -
  from assms have sh: "shape df1 = shape df2" and cols: "columns df1 = columns df2"
    and h: "height df1 \<noteq> 0"
    by (auto simp: compare_def Let_def CompareResult_def shape_def split: if_splits)
  with assms have "compare_data H N R use_hash df1 df2 (shape df1) (shape df2) = Inr (res, Some out)"
    by (auto simp: compare_def Let_def CompareResult_def shape_def split: if_splits)
  then obtain m where m: "mismatch_mask H N use_hash df1 df2 = Inr m"
    and g: "generate_differences_df R df1 df2 m = Inr out"
    by (auto simp: compare_data_def Let_def CompareResult_def split: if_splits sum.splits)
  from h have "df1 \<noteq> []" by (auto simp: height_def)
  with m sh have "length m = height df1"
    by (intro length_mismatch_mask_eq [OF m]) (simp_all add: shape_eq_iff)
  with sh cols m g show ?thesis by blast
qed

text \<open>
  For the differences that \<open>compare\<close> attaches, with the mask it computed: the property
  of C3 holds when the cast is faithful to \<open>N\<close>.
\<close>

lemma compare_emitted_cells_differ:
  assumes "wf_df df1" and "wf_df df2"
    and "\<forall>x y. R x \<noteq> R y \<longrightarrow> N x y"
    and "compare H N R use_hash df1 df2 = Inr (res, Some out)"
    and "d \<in> set out"
  shows "\<exists>m. mismatch_mask H N use_hash df1 df2 = Inr m \<and> m ! row_index d \<and>
           (\<exists>j<width df1. column_name d = cname (df1 ! j) \<and>
              spec_cell_mismatch N (cell df1 (row_index d) j) (cell df2 (row_index d) j))"
proof -
  from compare_differences [OF assms(4)] obtain m where
    sh: "shape df1 = shape df2" and c: "columns df1 = columns df2"
    and m: "mismatch_mask H N use_hash df1 df2 = Inr m" and l: "length m = height df1"
    and g: "generate_differences_df R df1 df2 m = Inr out"
    by blast
  from sh have hgt: "height df1 = height df2"
    by (simp add: shape_eq_iff)
  from generate_differences_df_sound [OF assms(1,2) c hgt l assms(3) g assms(5)] m show ?thesis
    by (auto simp: is_diff_spec)
qed

subsection \<open>The order of the differences\<close>

lemma at_most_one_match:
  "distinct (map f xs) \<Longrightarrow> length (filter (\<lambda>x. f x = a) xs) \<le> 1"
proof (induction xs)
  case Nil
  then show ?case by simp
next
  case (Cons x xs)
  show ?case
  proof (cases "f x = a")
    case True
    from Cons.prems have "f x \<notin> f ` set xs"
      by simp
    then have "\<forall>y \<in> set xs. f y \<noteq> a"
      using True by (metis image_eqI)
    then have "filter (\<lambda>y. f y = a) xs = []"
      by (simp add: filter_empty_conv)
    with True show ?thesis by simp
  next
    case False
    with Cons show ?thesis by simp
  qed
qed

lemma distinct_concat_join:
  assumes "distinct (map f xs)"
    and "\<And>x. x \<in> set xs \<Longrightarrow> length (g x) \<le> 1"
    and "\<And>x y. x \<in> set xs \<Longrightarrow> y \<in> set (g x) \<Longrightarrow> k y = f x"
  shows "distinct (map k (concat (map g xs)))"
  using assms
proof (induction xs)
  case Nil
  then show ?case by simp
next
  case (Cons x xs)
  have one: "distinct (map k (g x))"
  proof -
    have "length (map k (g x)) \<le> 1"
      using Cons.prems(2) [of x] by simp
    then show ?thesis
      by (cases "map k (g x)") (auto simp: le_Suc_eq)
  qed
  have rest: "distinct (map k (concat (map g xs)))"
    using Cons by simp
  have "set (map k (g x)) \<inter> set (map k (concat (map g xs))) = {}"
  proof (rule ccontr)
    assume "set (map k (g x)) \<inter> set (map k (concat (map g xs))) \<noteq> {}"
    then obtain y x' y' where y: "y \<in> set (g x)" and x': "x' \<in> set xs" and y': "y' \<in> set (g x')"
      and eq: "k y = k y'"
      by auto
    from Cons.prems(3) [of x y] y have "k y = f x" by simp
    moreover from Cons.prems(3) [of x' y'] x' y' have "k y' = f x'" by simp
    ultimately have "f x = f x'" using eq by simp
    with x' Cons.prems(1) show False by auto
  qed
  with one rest show ?case by simp
qed

lemma key3_melt_column:
  "map key3 (map (\<lambda>(i, v). (i, n, v)) (zip idx vs)) = map (\<lambda>i. (i, n)) (map fst (zip idx vs))"
  by (simp add: key3_def case_prod_beta)

lemma distinct_key3_melt_column:
  assumes "distinct idx"
  shows "distinct (map key3 (map (\<lambda>(i, v). (i, n, v)) (zip idx vs)))"
proof -
  have d: "distinct (map fst (zip idx vs))"
    using assms by (simp add: map_fst_zip_take)
  have "inj_on (\<lambda>i. (i, n)) (set (map fst (zip idx vs)))"
    by (rule inj_onI) simp
  with d have "distinct (map (\<lambda>i. (i, n)) (map fst (zip idx vs)))"
    by (auto simp only: distinct_map)
  then show ?thesis
    by (simp only: key3_melt_column)
qed

lemma disjoint_by_snd:
  assumes "snd ` A \<subseteq> {n}" "snd ` B \<subseteq> N" "n \<notin> N"
  shows "A \<inter> B = {}"
proof (rule ccontr)
  assume "A \<inter> B \<noteq> {}"
  then obtain p where "p \<in> A" "p \<in> B" by auto
  with assms(1,2) have "snd p = n" "snd p \<in> N" by auto
  with assms(3) show False by simp
qed

lemma distinct_key3_melted:
  assumes "distinct (columns df)"
  shows "distinct (map key3 (melted R m df))"
proof -
  let ?idx = "filter_mask m [0..<height df]"
  have didx: "distinct ?idx"
    by (rule distinct_filter_mask) simp
  have "distinct (map key3 (concat (map (\<lambda>c. map (\<lambda>(i, v). (i, cname c, v))
       (zip ?idx (map (map_option R) (filter_mask m (cvals c))))) cs)))"
    if "distinct (map cname cs)" for cs :: "'a column list"
    using that
  proof (induction cs)
    case Nil
    then show ?case by simp
  next
    case (Cons c cs)
    let ?col = "\<lambda>c. map (\<lambda>(i, v). (i, cname c, v))
       (zip ?idx (map (map_option R) (filter_mask m (cvals c))))"
    have a: "distinct (map key3 (?col c))"
      using didx by (rule distinct_key3_melt_column)
    have b: "distinct (map key3 (concat (map ?col cs)))"
      using Cons by simp
    have c: "snd ` set (map key3 (?col c)) \<subseteq> {cname c}"
      by (auto simp: key3_def)
    have d: "snd ` set (map key3 (concat (map ?col cs))) \<subseteq> cname ` set cs"
      by (auto simp: key3_def)
    have "cname c \<notin> cname ` set cs"
      using Cons.prems by simp
    with c d have "set (map key3 (?col c)) \<inter> set (map key3 (concat (map ?col cs))) = {}"
      by (rule disjoint_by_snd)
    with a b show ?case by simp
  qed
  from this [of df] assms show ?thesis
    by (simp add: melted_def columns_def)
qed

lemma key3_filter:
  "filter (\<lambda>(i', n', v2). i' = i \<and> n' = n) b = filter (\<lambda>r. key3 r = (i, n)) b"
  by (rule filter_cong) (auto simp: key3_def)

lemma distinct_key4_join_melted:
  assumes "distinct (map key3 a)" "distinct (map key3 b)"
  shows "distinct (map key4 (join_melted a b))"
  unfolding join_melted_def
proof (rule distinct_concat_join [where f = key3, OF assms(1)])
  fix x :: "nat \<times> string \<times> string option"
  obtain i n v where x: "x = (i, n, v)" by (cases x)
  show "length (case x of (i, n, v1) \<Rightarrow>
          map (\<lambda>(i', n', v2). (i, n, v1, v2)) (filter (\<lambda>(i', n', v2). i' = i \<and> n' = n) b)) \<le> 1"
  proof -
    have "length (filter (\<lambda>(i', n', v2). i' = i \<and> n' = n) b) \<le> 1"
      using at_most_one_match [OF assms(2), of "(i, n)"] by (simp only: key3_filter)
    then show ?thesis by (simp add: x)
  qed
next
  fix x :: "nat \<times> string \<times> string option" and y
  assume "y \<in> set (case x of (i, n, v1) \<Rightarrow>
          map (\<lambda>(i', n', v2). (i, n, v1, v2)) (filter (\<lambda>(i', n', v2). i' = i \<and> n' = n) b))"
  then show "key4 y = key3 x"
    by (cases x) (auto simp: key4_def key3_def)
qed

lemma distinct_key_join_schema:
  assumes "distinct (map key4 ds)" "distinct (map fst sch)"
  shows "distinct (map diff_key (join_schema ds sch))"
  unfolding join_schema_def
proof (rule distinct_concat_join [where f = key4, OF assms(1)])
  fix x :: "nat \<times> string \<times> string option \<times> string option"
  obtain i n v1 v2 where x: "x = (i, n, v1, v2)" by (cases x)
  have eq: "filter (\<lambda>(n', t). n' = n) sch = filter (\<lambda>r. fst r = n) sch"
    by (rule filter_cong) auto
  have "length (filter (\<lambda>(n', t). n' = n) sch) \<le> 1"
    using at_most_one_match [OF assms(2), of n] by (simp only: eq)
  then show "length (case x of (i, n, v1, v2) \<Rightarrow>
       map (\<lambda>(n', t). \<lparr>row_index = i, column_name = n, column_type = t,
                       value_v1 = v1, value_v2 = v2\<rparr>)
           (filter (\<lambda>(n', t). n' = n) sch)) \<le> 1"
    by (simp add: x)
next
  fix x :: "nat \<times> string \<times> string option \<times> string option" and y
  assume "y \<in> set (case x of (i, n, v1, v2) \<Rightarrow>
       map (\<lambda>(n', t). \<lparr>row_index = i, column_name = n, column_type = t,
                       value_v1 = v1, value_v2 = v2\<rparr>)
           (filter (\<lambda>(n', t). n' = n) sch))"
  then show "diff_key y = key4 x"
    by (cases x) (auto simp: key4_def diff_key_def)
qed

lemma distinct_map_sort_key:
  "distinct (map f (sort_key f xs)) = distinct (map f xs)"
  by (induction xs) (simp_all add: distinct_insort_key)

lemma distinct_fst_schema_df: "distinct (columns df) \<Longrightarrow> distinct (map fst (schema_df df))"
  by (simp add: schema_df_def columns_def dtypes_def)

lemma generate_differences_df_strict_sorted:
  assumes "distinct (columns df1)" "distinct (columns df2)"
    and "generate_differences_df R df1 df2 m = Inr out"
  shows "sorted_wrt (<) (map diff_key out)"
proof -
  from generate_differences_df_eq [OF assms(3)] obtain b1 b2 where
    out: "out = sort_key diff_key
            (join_schema (filter differs (join_melted (melted R b1 df1) (melted R b2 df2)))
               (schema_df df1))"
    by blast
  let ?pre = "join_schema (filter differs (join_melted (melted R b1 df1) (melted R b2 df2)))
              (schema_df df1)"
  have "distinct (map key4 (join_melted (melted R b1 df1) (melted R b2 df2)))"
    using assms(1,2) by (intro distinct_key4_join_melted distinct_key3_melted)
  then have "distinct (map key4 (filter differs (join_melted (melted R b1 df1) (melted R b2 df2))))"
    by (rule distinct_map_filter)
  then have "distinct (map diff_key ?pre)"
    using assms(1) by (intro distinct_key_join_schema distinct_fst_schema_df)
  then have "distinct (map diff_key out)"
    by (simp only: out distinct_map_sort_key)
  moreover have "sorted (map diff_key out)"
    by (simp only: out sorted_sort_key)
  ultimately show ?thesis
    by (simp only: strict_sorted_iff)
qed

lemma strict_sorted_unique:
  assumes "sorted_wrt (<) (map diff_key xs)" "sorted_wrt (<) (map diff_key ys)" "set ys = set xs"
  shows "ys = xs"
proof -
  from assms(1) have sx: "sorted (map diff_key xs)" "distinct (map diff_key xs)"
    by (simp_all add: strict_sorted_iff)
  from assms(2) have sy: "sorted (map diff_key ys)" "distinct (map diff_key ys)"
    by (simp_all add: strict_sorted_iff)
  from sx(2) have "inj_on diff_key (set xs)"
    by (simp add: distinct_map)
  then have "inj_on diff_key (set ys \<union> set xs)"
    using assms(3) by simp
  then show ?thesis
    using sy sx assms(3) by (rule map_sorted_distinct_set_unique)
qed

lemma diff_key_less:
  "diff_key a < diff_key b \<longleftrightarrow>
     row_index a < row_index b \<or> (row_index a = row_index b \<and> column_name a < column_name b)"
  by (auto simp: diff_key_def)

text \<open>
  C9. The differences are sorted by the pair of row index and column name, ascending,
  the names compared as strings (lexicographically, character by character). No two
  differences share this pair, so the order is strict and it determines the sequence: a
  strictly sorted arrangement of the same records is this sequence, so the order in which
  the joins deliver their rows cannot show in the result. (As a function of its arguments,
  the model returns the same sequence on the same inputs.)
\<close>

theorem differences_sorted:
  assumes "wf_df df1" and "wf_df df2"
    and "generate_differences_df R df1 df2 m = Inr out"
  shows "sorted_wrt (<) (map diff_key out) \<and>
         (\<forall>ys. set ys = set out \<and> sorted_wrt (<) (map diff_key ys) \<longrightarrow> ys = out)"
proof -
  from assms(1,2) have "distinct (columns df1)" "distinct (columns df2)"
    by (simp_all add: wf_df_def)
  from generate_differences_df_strict_sorted [OF this assms(3)]
  have s: "sorted_wrt (<) (map diff_key out)" .
  then show ?thesis
    using strict_sorted_unique [of out] by blast
qed

theorem differences_sorted_witness:
  "wf_df ledger_v1 \<and> wf_df ledger_v2 \<and>
   generate_differences_df (\<lambda>s. s) ledger_v1 ledger_v2 ledger_mask = Inr ledger_diffs \<and>
   sorted_wrt (<) (map diff_key ledger_diffs) \<and>
   map diff_key ledger_diffs = [(3, ''name''), (3, ''qty'')]"
proof -
  have h: "wf_df ledger_v1" "wf_df ledger_v2"
    by (simp_all add: sheet_defs frame_defs)
  have k: "map diff_key ledger_diffs = [(3, ''name''), (3, ''qty'')]"
    by (simp add: ledger_diffs_def diff_key_def)
  from differences_sorted [OF h ledger_generate_eval] h k ledger_generate_eval show ?thesis
    by blast
qed

text \<open>The same for the differences that \<open>compare\<close> attaches.\<close>

lemma compare_differences_sorted:
  assumes "wf_df df1" and "wf_df df2"
    and "compare H N R use_hash df1 df2 = Inr (res, Some out)"
  shows "sorted_wrt (<) (map diff_key out)"
proof -
  from compare_differences [OF assms(3)] obtain m where
    g: "generate_differences_df R df1 df2 m = Inr out"
    by blast
  from assms(1,2) have "distinct (columns df1)" "distinct (columns df2)"
    by (simp_all add: wf_df_def)
  from generate_differences_df_strict_sorted [OF this g] show ?thesis .
qed

section \<open>When \<open>compare\<close> returns\<close>

text \<open>
  \<open>compare\<close> returns a result for all well-formed frames under the hash strategy, and
  under the field-wise strategy when the combined frame has no duplicate name, as long as
  no column has one of the names that the generation step gives to its own columns.
\<close>

lemma compare_returns:
  assumes wf1: "wf_df df1" and wf2: "wf_df df2"
    and nocoll: "use_hash \<or> distinct (columns (df1 @ rename_v2 df2))"
    and noidx: "set (columns df1) \<inter> {''Row Index'', ''Column Name'', ''Value V1'', ''Value V2''} = {}"
  shows "\<exists>res ds. compare H N R use_hash df1 df2 = Inr (res, ds)"
proof (cases "shape df1 = shape df2 \<and> columns df1 = columns df2 \<and> dtypes df1 = dtypes df2 \<and>
          height df1 \<noteq> 0")
  case False
  then show ?thesis
    by (auto simp: compare_def Let_def shape_def)
next
  case True
  then have hgt: "height df1 = height df2" and cols: "columns df1 = columns df2"
    by (simp_all add: shape_eq_iff)
  have "\<exists>m. mismatch_mask H N use_hash df1 df2 = Inr m"
  proof (cases use_hash)
    case True
    then show ?thesis by (simp add: mismatch_mask_def)
  next
    case False
    with nocoll fieldwise_mask_eq [OF wf1 wf2 cols hgt, of N] show ?thesis
      by (simp add: mismatch_mask_def)
  qed
  then obtain m where m: "mismatch_mask H N use_hash df1 df2 = Inr m" ..
  from True have "df1 \<noteq> []" by (auto simp: height_def)
  from length_mismatch_mask_eq [OF m hgt this] have len: "length m = height df1" .
  have cc: "columns (map (\<lambda>c. \<lparr>cname = cname c, ctype = ''String'',
                cvals = map (map_option R) (filter_mask m (cvals c))\<rparr>) df) = columns df"
    for df :: "'a dataframe"
    by (simp add: columns_def o_def)
  have "\<exists>out. generate_differences_df R df1 df2 m = Inr out"
    using noidx cols len hgt
    by (simp add: generate_differences_df_def with_row_index_def filter_rows_def
        broadcast_mask_def unpivot_def cast_utf8_def Let_def cc o_def)
  then obtain out where g: "generate_differences_df R df1 df2 m = Inr out" ..
  from True have "compare H N R use_hash df1 df2 =
      compare_data H N R use_hash df1 df2 (shape df1) (shape df2)"
    by (simp add: compare_def Let_def shape_def)
  with True m g show ?thesis
    by (simp add: compare_data_def Let_def)
qed

end
